theory Spec2Isabelle
  imports Complex_Main "HOL-Library.Word"
begin

unbundle bit_operations_syntax

section \<open>Machine integers of the ATmega2560\<close>

text \<open>
  The sketch targets the Arduino Mega 2560 (avr-gcc): \<open>int\<close> is 16 bits wide,
  \<open>uint16_t\<close> is \<open>unsigned int\<close>, \<open>unsigned long\<close> is 32 bits.  Signed
  \<open>int\<close> values are modelled as HOL integers; \<open>s16\<close> is the two's complement
  wrap that the generated code performs when a 16-bit result leaves the signed range.
  Unsigned values are machine words.
\<close>

definition s16 :: "int \<Rightarrow> int" where
  "s16 x = (x + 32768) mod 65536 - 32768"

definition c_div :: "int \<Rightarrow> int \<Rightarrow> int" where
  \<comment> \<open>C division truncates towards zero\<close>
  "c_div a b = sgn a * sgn b * (\<bar>a\<bar> div \<bar>b\<bar>)"

section \<open>Clock state\<close>

record ClockTime =
  year :: int
  month :: int
  day :: int
  hour :: int
  minute :: int
  second :: int
  hasDate :: bool
  isSet :: bool

definition ClockTime0 :: ClockTime where
  \<comment> \<open>the default member initialisers of \<open>struct ClockTime\<close>\<close>
  "ClockTime0 = \<lparr>year = 0, month = 0, day = 0, hour = 0, minute = 0, second = 0,
                  hasDate = False, isSet = False\<rparr>"

section \<open>Parse helpers\<close>

definition isDigitN :: "char \<Rightarrow> bool" where
  "isDigitN c = ((48::nat) \<le> of_char c \<and> of_char c \<le> (57::nat))"

definition digitVal :: "char \<Rightarrow> int" where
  \<comment> \<open>\<open>c - '0'\<close>\<close>
  "digitVal c = int (of_char c) - 48"

definition to2 :: "string \<Rightarrow> nat \<Rightarrow> int" where
  \<comment> \<open>\<open>to2 (s + k)\<close>\<close>
  "to2 s k = (if \<not> isDigitN (s ! k) \<or> \<not> isDigitN (s ! (k + 1)) then -1
              else digitVal (s ! k) * 10 + digitVal (s ! (k + 1)))"

definition to4 :: "string \<Rightarrow> nat \<Rightarrow> int" where
  "to4 s k = (if \<not> (isDigitN (s ! k) \<and> isDigitN (s ! (k + 1)) \<and> isDigitN (s ! (k + 2))
                      \<and> isDigitN (s ! (k + 3))) then -1
              else digitVal (s ! k) * 1000 + digitVal (s ! (k + 1)) * 100
                   + digitVal (s ! (k + 2)) * 10 + digitVal (s ! (k + 3)))"

definition timeOutOfRange :: "ClockTime \<Rightarrow> bool" where
  \<comment> \<open>the hour/minute/second test shared by both branches of \<open>parseTime\<close>\<close>
  "timeOutOfRange t = (hour t < 0 \<or> hour t > 23 \<or> minute t < 0 \<or> minute t > 59
                       \<or> second t < 0 \<or> second t > 59)"

definition skipBlanks :: "string \<Rightarrow> string" where
  \<comment> \<open>\<open>while (*s == ' ' || *s == '\t') s++\<close>\<close>
  "skipBlanks s = dropWhile (\<lambda>c. c = CHR '' '' \<or> c = CHR 0x09) s"

definition parseTime :: "string \<Rightarrow> ClockTime option" where
  \<comment> \<open>\<open>None\<close> is \<open>return false\<close> (the caller's \<open>out\<close> is not written);
      \<open>Some temp\<close> is \<open>out = temp; return true\<close>.  The argument is the C string
      without its terminating NUL.\<close>
  "parseTime s0 =
    (let s = skipBlanks s0;
         temp = ClockTime0;
         len = int (length s)
     in if len \<ge> 8 \<and> isDigitN (s ! 0) \<and> isDigitN (s ! 1) \<and> s ! 2 = CHR '':''
           \<and> isDigitN (s ! 3) \<and> isDigitN (s ! 4) \<and> s ! 5 = CHR '':''
           \<and> isDigitN (s ! 6) \<and> isDigitN (s ! 7)
        then (let temp = temp\<lparr>hour := to2 s 0, minute := to2 s 3, second := to2 s 6,
                               hasDate := False\<rparr>
              in if timeOutOfRange temp then None else Some (temp\<lparr>isSet := True\<rparr>))
        else if len \<ge> 19 \<and> isDigitN (s ! 0)
        then (if \<not> (s ! 4 = CHR ''-'' \<and> s ! 7 = CHR ''-'' \<and> s ! 10 = CHR '' ''
                      \<and> s ! 13 = CHR '':'' \<and> s ! 16 = CHR '':'') then None
              else (let temp = temp\<lparr>year := to4 s 0, month := to2 s 5, day := to2 s 8,
                                     hour := to2 s 11, minute := to2 s 14,
                                     second := to2 s 17\<rparr>;
                        temp = temp\<lparr>hasDate := (year temp > 0)\<rparr>
                    in if year temp < 1970 \<or> month temp < 1 \<or> month temp > 12
                          \<or> day temp < 1 \<or> day temp > 31 then None
                       else if timeOutOfRange temp then None
                       else Some (temp\<lparr>isSet := True\<rparr>)))
        else None)"

section \<open>Advancing the clock\<close>

definition isLeap :: "int \<Rightarrow> bool" where
  \<comment> \<open>a C remainder is zero exactly when the mathematical one is\<close>
  "isLeap y = ((y mod 4 = 0 \<and> y mod 100 \<noteq> 0) \<or> y mod 400 = 0)"

definition monthDays :: "int list" where
  "monthDays = [31, 28, 31, 30, 31, 30, 31, 31, 30, 31, 30, 31]"

definition daysInMonth :: "int \<Rightarrow> int \<Rightarrow> int option" where
  \<comment> \<open>\<open>None\<close>: the read \<open>d[m-1]\<close> is outside the 12-element table\<close>
  "daysInMonth y m =
     (if m = 2 then Some (if isLeap y then 29 else 28)
      else if 0 \<le> m - 1 \<and> m - 1 < 12 then Some (monthDays ! nat (m - 1))
      else None)"

definition tickOneSecond :: "ClockTime \<Rightarrow> ClockTime option" where
  "tickOneSecond t0 =
    (let t = t0\<lparr>second := s16 (second t0 + 1)\<rparr>;
         t = (if second t \<ge> 60 then t\<lparr>second := 0, minute := s16 (minute t + 1)\<rparr> else t);
         t = (if minute t \<ge> 60 then t\<lparr>minute := 0, hour := s16 (hour t + 1)\<rparr> else t)
     in if hour t \<ge> 24
        then (let t = t\<lparr>hour := 0\<rparr>
              in if hasDate t \<and> year t \<ge> 1970
                 then (let t = t\<lparr>day := s16 (day t + 1)\<rparr>
                       in case daysInMonth (year t) (month t) of
                            None \<Rightarrow> None
                          | Some ndays \<Rightarrow>
                              Some (if day t > ndays
                                    then (let t = t\<lparr>day := 1, month := s16 (month t + 1)\<rparr>
                                          in if month t > 12
                                             then t\<lparr>month := 1, year := s16 (year t + 1)\<rparr>
                                             else t)
                                    else t))
                 else Some t)
        else Some t)"

fun tickN :: "nat \<Rightarrow> ClockTime \<Rightarrow> ClockTime option" where
  \<comment> \<open>\<open>tickOneSecond\<close> applied \<open>n\<close> times in sequence\<close>
  "tickN 0 t = Some t"
| "tickN (Suc n) t = (case tickOneSecond t of None \<Rightarrow> None | Some t' \<Rightarrow> tickN n t')"

section \<open>Concrete clock values used below\<close>

definition feb28_2024 :: ClockTime where
  "feb28_2024 = \<lparr>year = 2024, month = 2, day = 28, hour = 23, minute = 59, second = 59,
                  hasDate = True, isSet = True\<rparr>"

definition feb28_2023 :: ClockTime where
  "feb28_2023 = \<lparr>year = 2023, month = 2, day = 28, hour = 23, minute = 59, second = 59,
                  hasDate = True, isSet = True\<rparr>"

section \<open>Time of day\<close>

definition validTime :: "ClockTime \<Rightarrow> bool" where
  "validTime t = (0 \<le> hour t \<and> hour t < 24 \<and> 0 \<le> minute t \<and> minute t < 60
                  \<and> 0 \<le> second t \<and> second t < 60)"

definition secOfDay :: "ClockTime \<Rightarrow> int" where
  "secOfDay t = hour t * 3600 + minute t * 60 + second t"

definition sameDate :: "ClockTime \<Rightarrow> ClockTime \<Rightarrow> bool" where
  "sameDate t t' = (year t' = year t \<and> month t' = month t \<and> day t' = day t
                    \<and> hasDate t' = hasDate t \<and> isSet t' = isSet t)"

section \<open>The two accepted grammars\<close>

text \<open>
  The grammars of the specification, stated on the input after its leading blanks
  have been skipped.  \<open>num2\<close> and \<open>num4\<close> are the decimal values of the digit
  fields.
\<close>

definition digitsAt :: "string \<Rightarrow> nat list \<Rightarrow> bool" where
  "digitsAt s ks = list_all (\<lambda>k. isDigitN (s ! k)) ks"

definition num2 :: "string \<Rightarrow> nat \<Rightarrow> int" where
  "num2 s k = digitVal (s ! k) * 10 + digitVal (s ! (k + 1))"

definition num4 :: "string \<Rightarrow> nat \<Rightarrow> int" where
  "num4 s k = digitVal (s ! k) * 1000 + digitVal (s ! (k + 1)) * 100
              + digitVal (s ! (k + 2)) * 10 + digitVal (s ! (k + 3))"

definition shortFields :: "string \<Rightarrow> bool" where
  "shortFields s = (digitsAt s [0, 1, 3, 4, 6, 7] \<and> s ! 2 = CHR '':'' \<and> s ! 5 = CHR '':''
      \<and> num2 s 0 \<le> 23 \<and> num2 s 3 \<le> 59 \<and> num2 s 6 \<le> 59)"

definition specShortForm :: "string \<Rightarrow> bool" where
  \<comment> \<open>the short grammar in the words of the specification: exactly 8 characters\<close>
  "specShortForm s = (length s = 8 \<and> shortFields s)"

definition shortForm :: "string \<Rightarrow> bool" where
  \<comment> \<open>the short grammar as a prefix: at least 8 characters\<close>
  "shortForm s = (8 \<le> length s \<and> shortFields s)"

definition longForm :: "string \<Rightarrow> bool" where
  "longForm s = (19 \<le> length s
      \<and> s ! 4 = CHR ''-'' \<and> s ! 7 = CHR ''-'' \<and> s ! 10 = CHR '' ''
      \<and> s ! 13 = CHR '':'' \<and> s ! 16 = CHR '':''
      \<and> digitsAt s [0, 1, 2, 3, 5, 6, 8, 9, 11, 12, 14, 15, 17, 18]
      \<and> 1970 \<le> num4 s 0 \<and> 1 \<le> num2 s 5 \<and> num2 s 5 \<le> 12
      \<and> 1 \<le> num2 s 8 \<and> num2 s 8 \<le> 31
      \<and> num2 s 11 \<le> 23 \<and> num2 s 14 \<le> 59 \<and> num2 s 17 \<le> 59)"

section \<open>Calendar invariants\<close>

definition dateInRange :: "ClockTime \<Rightarrow> bool" where
  "dateInRange t = (1970 \<le> year t \<and> 1 \<le> month t \<and> month t \<le> 12 \<and> 1 \<le> day t \<and> day t \<le> 31)"

definition dateValid :: "ClockTime \<Rightarrow> bool" where
  "dateValid t = (1970 \<le> year t \<and> 1 \<le> month t \<and> month t \<le> 12 \<and> 1 \<le> day t
      \<and> (case daysInMonth (year t) (month t) of None \<Rightarrow> False | Some ndays \<Rightarrow> day t \<le> ndays))"

section \<open>The clock as driven by the main loop\<close>

text \<open>
  The only writes to the shared clock \<open>ct\<close>: a received line that parses replaces it
  (\<open>ct = parsed; ct.isSet = true\<close>), and an elapsed second advances it, but only when
  \<open>ct.isSet\<close> holds.  \<open>None\<close> is an out-of-range table read in \<open>daysInMonth\<close>.
\<close>

datatype event = Line string | Second

fun clockStep :: "ClockTime \<Rightarrow> event \<Rightarrow> ClockTime option" where
  "clockStep c (Line s) =
     (case parseTime s of None \<Rightarrow> Some c | Some parsed \<Rightarrow> Some (parsed\<lparr>isSet := True\<rparr>))"
| "clockStep c Second = (if isSet c then tickOneSecond c else Some c)"

fun clockRun :: "ClockTime \<Rightarrow> event list \<Rightarrow> ClockTime option" where
  "clockRun c [] = Some c"
| "clockRun c (e # es) = (case clockStep c e of None \<Rightarrow> None | Some c' \<Rightarrow> clockRun c' es)"

definition monthOK :: "ClockTime \<Rightarrow> bool" where
  "monthOK c = (hasDate c \<longrightarrow> 1 \<le> month c \<and> month c \<le> 12)"

definition jan1_2025 :: ClockTime where
  "jan1_2025 = \<lparr>year = 2025, month = 1, day = 1, hour = 0, minute = 0, second = 0,
                 hasDate = True, isSet = True\<rparr>"

definition feb31_2024 :: ClockTime where
  "feb31_2024 = \<lparr>year = 2024, month = 2, day = 31, hour = 0, minute = 0, second = 0,
                  hasDate = True, isSet = True\<rparr>"

section \<open>C strings and formatted output\<close>

definition NUL :: char where
  "NUL = CHR 0x00"

definition cstr :: "string \<Rightarrow> string" where
  \<comment> \<open>the C string held in a char array: the bytes before the first NUL\<close>
  "cstr arr = takeWhile (\<lambda>c. c \<noteq> NUL) arr"

definition strncpy :: "string \<Rightarrow> nat \<Rightarrow> string" where
  \<comment> \<open>the \<open>n\<close> bytes that \<open>strncpy (dst, src, n)\<close> writes: \<open>src\<close>, then NUL padding\<close>
  "strncpy src n = take n (src @ replicate n NUL)"

definition snprintf :: "nat \<Rightarrow> string \<Rightarrow> string" where
  \<comment> \<open>\<open>snprintf (buf, cap, ...)\<close> keeps at most \<open>cap - 1\<close> characters of the output\<close>
  "snprintf cap out = take (cap - 1) out"

definition digitChar :: "nat \<Rightarrow> char" where
  "digitChar d = char_of (48 + d)"

fun dec :: "nat \<Rightarrow> string" where
  "dec n = (if n < 10 then [digitChar n] else dec (n div 10) @ [digitChar (n mod 10)])"

declare dec.simps [simp del]

definition fmt_d :: "int \<Rightarrow> string" where
  \<comment> \<open>\<open>%d\<close>\<close>
  "fmt_d x = (if x < 0 then CHR ''-'' # dec (nat (- x)) else dec (nat x))"

definition fmt_0d :: "nat \<Rightarrow> int \<Rightarrow> string" where
  \<comment> \<open>\<open>%0wd\<close>: zero padding to width \<open>w\<close>, after the sign\<close>
  "fmt_0d w x =
     (let ds = dec (nat \<bar>x\<bar>)
      in if x < 0 then CHR ''-'' # replicate (w - 1 - length ds) CHR ''0'' @ ds
         else replicate (w - length ds) CHR ''0'' @ ds)"

section \<open>The display and the layout\<close>

text \<open>
  The display driver is an external collaborator.  Every call made on it is recorded,
  in order, with its arguments.  \<open>OceanBG\<close> records a call of the sketch's
  \<open>fillRectWithOceanBG\<close>, which repaints the background gradient of a rectangle row by
  row; its rows are not unfolded.  Coordinates are recorded as mathematical integers.
\<close>

type_synonym color = "16 word"

datatype tft_call =
    FillRect int int int int color
  | FillRoundRect int int int int int color
  | DrawRoundRect int int int int int color
  | OceanBG int int int int
  | SetTextSize int
  | SetTextColor color color
  | SetCursor int int
  | Print string

fun paints :: "tft_call \<Rightarrow> bool" where
  \<comment> \<open>the calls that draw or erase; the others only set text attributes\<close>
  "paints (SetTextSize _) = False"
| "paints (SetTextColor _ _) = False"
| "paints (SetCursor _ _) = False"
| "paints _ = True"

definition COL_BG :: color where "COL_BG = 0x0000"
definition COL_TEXT :: color where "COL_TEXT = 0xFFFF"
definition COL_BAR :: color where "COL_BAR = 0x05BF"
definition COL_GLOW :: color where "COL_GLOW = 0x07FF"
definition COL_GLOW2 :: color where "COL_GLOW2 = 0x07E0"

record layout =
  W :: "16 word"
  H :: "16 word"
  SEG_THICK :: int
  SEG_LEN :: int
  SEG_HGAP :: int
  SEG_VLEN :: int
  COLON_W :: int
  E_SP :: int
  DIGIT_Y :: int
  DIG_X :: "int list"
  ENV_BG :: color
  textW :: "string \<Rightarrow> 16 word"

text \<open>
  \<open>W\<close> and \<open>H\<close> are what the driver reports in \<open>setup\<close>; \<open>ENV_BG\<close> is the colour
  computed there once; \<open>textW\<close> is the width that the driver's \<open>getTextBounds\<close> reports
  for a string.  The other fields are the sketch's geometry globals.
\<close>

definition layout0 :: "16 word \<Rightarrow> 16 word \<Rightarrow> color \<Rightarrow> (string \<Rightarrow> 16 word) \<Rightarrow> layout" where
  \<comment> \<open>the initialisers of the geometry globals\<close>
  "layout0 w h bg tw =
     \<lparr>W = w, H = h, SEG_THICK = 5, SEG_LEN = 28, SEG_HGAP = 7, SEG_VLEN = 28,
      COLON_W = 8, E_SP = 2, DIGIT_Y = 0, DIG_X = replicate 6 0, ENV_BG = bg, textW = tw\<rparr>"

section \<open>Auto-size\<close>

definition totalRowWidth :: "layout \<Rightarrow> int" where
  "totalRowWidth L = (let dcellW = SEG_LEN L + 2 * SEG_HGAP L
                      in 6 * dcellW + 2 * COLON_W L + 7 * E_SP L)"

definition MARGIN :: int where "MARGIN = 6"
definition MIN_SP :: int where "MIN_SP = 0"
definition MIN_COLON :: int where "MIN_COLON = 4"
definition MIN_THICK :: int where "MIN_THICK = 4"
definition MIN_LEN :: int where "MIN_LEN = 16"
definition MIN_VLEN :: int where "MIN_VLEN = 16"

definition rowFits :: "layout \<Rightarrow> bool" where
  \<comment> \<open>\<open>need <= W - 2*MARGIN\<close>: \<open>W\<close> is \<open>uint16_t\<close>, so both sides are converted to
      16-bit unsigned and the subtraction wraps\<close>
  "rowFits L = ((word_of_int (totalRowWidth L) :: 16 word) \<le> W L - word_of_int (2 * MARGIN))"

definition shrinkStep :: "layout \<Rightarrow> layout option" where
  \<comment> \<open>the body of the \<open>for\<close> loop: \<open>None\<close> is \<open>break\<close>, \<open>Some\<close> is \<open>continue\<close> with the
      globals as updated\<close>
  "shrinkStep L =
     (if rowFits L then None
      else if E_SP L > MIN_SP then Some (L\<lparr>E_SP := E_SP L - 1\<rparr>)
      else if COLON_W L > MIN_COLON then Some (L\<lparr>COLON_W := COLON_W L - 1\<rparr>)
      else if SEG_LEN L > MIN_LEN then Some (L\<lparr>SEG_LEN := SEG_LEN L - 1\<rparr>)
      else if SEG_VLEN L > MIN_VLEN then Some (L\<lparr>SEG_VLEN := SEG_VLEN L - 1\<rparr>)
      else if SEG_THICK L > MIN_THICK then Some (L\<lparr>SEG_THICK := SEG_THICK L - 1\<rparr>)
      else None)"

function autoSizeFrom :: "nat \<Rightarrow> layout \<Rightarrow> nat \<times> layout" where
  \<comment> \<open>the \<open>for\<close> loop from counter value \<open>g\<close>; returns the counter on exit with the layout\<close>
  "autoSizeFrom g L =
     (if g < 200
      then (case shrinkStep L of None \<Rightarrow> (g, L) | Some L' \<Rightarrow> autoSizeFrom (g + 1) L')
      else (g, L))"
  by pat_completeness auto
termination
  by (relation "measure (\<lambda>(g, L). 200 - g)") auto

declare autoSizeFrom.simps [simp del]

definition autoSizeToFit :: "layout \<Rightarrow> layout" where
  "autoSizeToFit L = snd (autoSizeFrom 0 L)"

definition params :: "layout \<Rightarrow> int list" where
  \<comment> \<open>the shrinkable parameters, in the order in which the loop tries them\<close>
  "params L = [E_SP L, COLON_W L, SEG_LEN L, SEG_VLEN L, SEG_THICK L]"

definition minima :: "int list" where
  "minima = [MIN_SP, MIN_COLON, MIN_LEN, MIN_VLEN, MIN_THICK]"

definition allAtMin :: "layout \<Rightarrow> bool" where
  "allAtMin L = list_all2 (\<le>) (params L) minima"



section \<open>Shadow state and rendering\<close>

record render =
  tft :: "tft_call list"
  prevTimeStr :: string
  prevDateStr :: string
  prevDigitMask :: "8 word list"
  prevFillW :: int
  barY :: int
  barW :: int

definition barX :: int where "barX = 10"
definition barH :: int where "barH = 10"

definition render0 :: render where
  \<comment> \<open>the initialisers of the caches; nothing has been drawn\<close>
  "render0 = \<lparr>tft = [], prevTimeStr = ''??:??:??'' @ [NUL], prevDateStr = replicate 16 NUL,
              prevDigitMask = replicate 6 0, prevFillW = - 1, barY = 0, barW = 0\<rparr>"

definition emit :: "tft_call list \<Rightarrow> render \<Rightarrow> render" where
  "emit cs r = r\<lparr>tft := tft r @ cs\<rparr>"

subsection \<open>Seven-segment digits\<close>

definition DIGIT_MASK :: "8 word list" where
  "DIGIT_MASK = [0x3F, 0x06, 0x5B, 0x4F, 0x66, 0x6D, 0x7D, 0x07, 0x7F, 0x6F]"

definition SEG_A :: nat where "SEG_A = 0"
definition SEG_B :: nat where "SEG_B = 1"
definition SEG_C :: nat where "SEG_C = 2"
definition SEG_D :: nat where "SEG_D = 3"
definition SEG_E :: nat where "SEG_E = 4"
definition SEG_F :: nat where "SEG_F = 5"
definition SEG_G :: nat where "SEG_G = 6"

definition HARD_REFRESH_MINUTES :: bool where "HARD_REFRESH_MINUTES = True"
definition HARD_REFRESH_SECONDS :: bool where "HARD_REFRESH_SECONDS = True"

definition segIn :: "8 word \<Rightarrow> nat \<Rightarrow> bool" where
  \<comment> \<open>\<open>mask & (1 << seg)\<close>\<close>
  "segIn msk seg = (msk AND push_bit seg 1 \<noteq> 0)"

definition drawHSeg :: "layout \<Rightarrow> int \<Rightarrow> int \<Rightarrow> int \<Rightarrow> color \<Rightarrow> tft_call" where
  "drawHSeg L x y len c = FillRoundRect x y len (SEG_THICK L) (c_div (SEG_THICK L) 2) c"

definition drawVSeg :: "layout \<Rightarrow> int \<Rightarrow> int \<Rightarrow> int \<Rightarrow> color \<Rightarrow> tft_call" where
  "drawVSeg L x y len c = FillRoundRect x y (SEG_THICK L) len (c_div (SEG_THICK L) 2) c"

definition eraseHSegBG :: "layout \<Rightarrow> int \<Rightarrow> int \<Rightarrow> int \<Rightarrow> tft_call" where
  "eraseHSegBG L x y len = OceanBG x y len (SEG_THICK L)"

definition eraseVSegBG :: "layout \<Rightarrow> int \<Rightarrow> int \<Rightarrow> int \<Rightarrow> tft_call" where
  "eraseVSegBG L x y len = OceanBG x y (SEG_THICK L) len"

definition drawDigitSegments :: "layout \<Rightarrow> int \<Rightarrow> int \<Rightarrow> 8 word \<Rightarrow> bool \<Rightarrow> tft_call list" where
  "drawDigitSegments L x0 y0 msk erase =
    (let T = SEG_THICK L; LEN = SEG_LEN L; G = SEG_HGAP L; V = SEG_VLEN L
     in if erase
        then (if segIn msk SEG_A then [eraseHSegBG L (x0 + G) y0 LEN] else [])
           @ (if segIn msk SEG_G then [eraseHSegBG L (x0 + G) (y0 + V + T) LEN] else [])
           @ (if segIn msk SEG_D then [eraseHSegBG L (x0 + G) (y0 + 2 * V + 2 * T) LEN] else [])
           @ (if segIn msk SEG_B then [eraseVSegBG L (x0 + G + LEN) (y0 + c_div T 2) V] else [])
           @ (if segIn msk SEG_C
              then [eraseVSegBG L (x0 + G + LEN) (y0 + V + c_div (3 * T) 2) V] else [])
           @ (if segIn msk SEG_F then [eraseVSegBG L x0 (y0 + c_div T 2) V] else [])
           @ (if segIn msk SEG_E then [eraseVSegBG L x0 (y0 + V + c_div (3 * T) 2) V] else [])
        else (let col = COL_GLOW
              in (if segIn msk SEG_A then [drawHSeg L (x0 + G) y0 LEN col] else [])
               @ (if segIn msk SEG_G then [drawHSeg L (x0 + G) (y0 + V + T) LEN col] else [])
               @ (if segIn msk SEG_D
                  then [drawHSeg L (x0 + G) (y0 + 2 * V + 2 * T) LEN col] else [])
               @ (if segIn msk SEG_B
                  then [drawVSeg L (x0 + G + LEN) (y0 + c_div T 2) V col] else [])
               @ (if segIn msk SEG_C
                  then [drawVSeg L (x0 + G + LEN) (y0 + V + c_div (3 * T) 2) V col] else [])
               @ (if segIn msk SEG_F then [drawVSeg L x0 (y0 + c_div T 2) V col] else [])
               @ (if segIn msk SEG_E
                  then [drawVSeg L x0 (y0 + V + c_div (3 * T) 2) V col] else [])))"

definition hardRefreshDigit :: "layout \<Rightarrow> nat \<Rightarrow> 8 word \<Rightarrow> render \<Rightarrow> render" where
  "hardRefreshDigit L di newMask r =
    (let x = DIG_X L ! di; y = DIGIT_Y L;
         w = SEG_LEN L + 2 * SEG_HGAP L + SEG_THICK L;
         h = 2 * SEG_VLEN L + 3 * SEG_THICK L;
         r = emit [OceanBG x y w h] r;
         r = (if newMask \<noteq> 0 then emit (drawDigitSegments L x y newMask False) r else r)
     in r\<lparr>prevDigitMask := (prevDigitMask r)[di := newMask]\<rparr>)"

definition timeCell :: "layout \<Rightarrow> string \<Rightarrow> render \<Rightarrow> nat \<Rightarrow> render" where
  \<comment> \<open>the body of the \<open>for\<close> loop of \<open>drawTimeDigits\<close> at index \<open>i\<close>\<close>
  "timeCell L cur r i =
    (if i = 2 \<or> i = 5 then r
     else if cur ! i = prevTimeStr r ! i then r
     else (let di = (if i < 2 then i else if i < 5 then i - 1 else i - 2);
               newMask = (if isDigitN (cur ! i) then DIGIT_MASK ! nat (digitVal (cur ! i)) else 0);
               oldMask = prevDigitMask r ! di
           in if di = 0 \<or> di = 1 \<or> (HARD_REFRESH_MINUTES \<and> (di = 2 \<or> di = 3))
                 \<or> (HARD_REFRESH_SECONDS \<and> (di = 4 \<or> di = 5))
              then hardRefreshDigit L di newMask r
              else (let offMask = oldMask AND NOT newMask;
                        r = (if offMask \<noteq> 0
                             then emit (drawDigitSegments L (DIG_X L ! di) (DIGIT_Y L) offMask True) r
                             else r);
                        onMask = newMask AND NOT oldMask;
                        r = (if onMask \<noteq> 0
                             then emit (drawDigitSegments L (DIG_X L ! di) (DIGIT_Y L) onMask False) r
                             else r)
                    in r\<lparr>prevDigitMask := (prevDigitMask r)[di := newMask]\<rparr>)))"

definition timeText :: "ClockTime \<Rightarrow> string" where
  \<comment> \<open>\<open>snprintf (cur, sizeof (cur), "%02d:%02d:%02d", ...)\<close> with \<open>char cur[9]\<close>\<close>
  "timeText c = snprintf 9 (fmt_0d 2 (hour c) @ '':'' @ fmt_0d 2 (minute c) @ '':''
                            @ fmt_0d 2 (second c))"

definition drawTimeDigits :: "layout \<Rightarrow> ClockTime \<Rightarrow> render \<Rightarrow> render" where
  "drawTimeDigits L c r =
    (let cur = timeText c;
         r = foldl (timeCell L cur) r [0..<8]
     in r\<lparr>prevTimeStr := strncpy cur 9\<rparr>)"

subsection \<open>Seconds bar\<close>

definition arduino_map :: "int \<Rightarrow> int \<Rightarrow> int \<Rightarrow> int \<Rightarrow> int \<Rightarrow> int" where
  \<comment> \<open>\<open>map\<close> of the Arduino core, computed in 32-bit \<open>long\<close>, which the arguments
      used here cannot overflow\<close>
  "arduino_map x in_min in_max out_min out_max =
     c_div ((x - in_min) * (out_max - out_min)) (in_max - in_min) + out_min"

definition fillWidth :: "int \<Rightarrow> 8 word \<Rightarrow> int" where
  \<comment> \<open>\<open>int fillW = map (sec, 0, 59, 0, barW)\<close>\<close>
  "fillWidth bw sec = s16 (arduino_map (uint sec) 0 59 0 bw)"

definition drawSecondsBarFrameOnce :: "layout \<Rightarrow> render \<Rightarrow> render" where
  "drawSecondsBarFrameOnce L r =
    (let r = r\<lparr>barY := sint (H L - 26), barW := sint (W L - 20)\<rparr>
     in emit [DrawRoundRect (barX - 1) (barY r - 1) (barW r + 2) (barH + 2) 4 COL_GLOW2] r)"

definition drawSecondsBarFill :: "8 word \<Rightarrow> render \<Rightarrow> render" where
  "drawSecondsBarFill sec r =
    (let fillW = fillWidth (barW r) sec
     in if fillW = prevFillW r then r
        else if prevFillW r < 0
        then (emit [FillRect barX (barY r) fillW barH COL_BAR] r)\<lparr>prevFillW := fillW\<rparr>
        else (let r = (if fillW > prevFillW r
                       then emit [FillRect (barX + prevFillW r) (barY r) (fillW - prevFillW r)
                                    barH COL_BAR] r
                       else emit [OceanBG (barX + fillW) (barY r) (prevFillW r - fillW) barH] r)
              in r\<lparr>prevFillW := fillW\<rparr>))"

subsection \<open>Date line\<close>

definition c_mod :: "int \<Rightarrow> int \<Rightarrow> int" where
  \<comment> \<open>the C remainder, with the sign of the dividend\<close>
  "c_mod a b = a - b * c_div a b"

definition weekdayIndex :: "int \<Rightarrow> int \<Rightarrow> int \<Rightarrow> int option" where
  \<comment> \<open>\<open>None\<close>: the read \<open>t[m-1]\<close> is outside the 12-element table\<close>
  "weekdayIndex y0 m d =
    (let t = [0, 3, 2, 5, 0, 3, 5, 1, 4, 6, 2, 4];
         y = (if m < 3 then s16 (y0 - 1) else y0)
     in if 0 \<le> m - 1 \<and> m - 1 < 12
        then Some (c_mod (s16 (y + c_div y 4 - c_div y 100 + c_div y 400 + t ! nat (m - 1) + d)) 7)
        else None)"

definition WEEKDAY_NAME :: "string list" where
  "WEEKDAY_NAME = [''Sunday'', ''Monday'', ''Tuesday'', ''Wednesday'', ''Thursday'',
                   ''Friday'', ''Saturday'']"

definition MONTH_NAME :: "string list" where
  "MONTH_NAME = [''January'', ''February'', ''March'', ''April'', ''May'', ''June'', ''July'',
                 ''August'', ''September'', ''October'', ''November'', ''December'']"

definition dateText :: "ClockTime \<Rightarrow> string" where
  \<comment> \<open>\<open>line1\<close>, with \<open>char line1[16]\<close>\<close>
  "dateText c = snprintf 16
     (fmt_0d 2 (if hasDate c \<and> day c \<noteq> 0 then day c else 0) @ ''-''
      @ fmt_0d 2 (if hasDate c \<and> month c \<noteq> 0 then month c else 0) @ ''-''
      @ fmt_0d 4 (if hasDate c \<and> year c \<noteq> 0 then year c else 0))"

definition weekdayText :: "ClockTime \<Rightarrow> string option" where
  \<comment> \<open>\<open>line2\<close>, with \<open>char line2[32]\<close>; \<open>None\<close>: a table is read out of range\<close>
  "weekdayText c =
    (if hasDate c \<and> year c \<ge> 1970 \<and> month c \<ge> 1 \<and> month c \<le> 12 \<and> day c \<ge> 1
     then (case weekdayIndex (year c) (month c) (day c) of
             None \<Rightarrow> None
           | Some wd \<Rightarrow>
               if 0 \<le> wd \<and> wd < 7
               then Some (snprintf 32 (WEEKDAY_NAME ! nat wd @ '' , ''
                                        @ MONTH_NAME ! nat (month c - 1) @ '' '' @ fmt_d (day c)))
               else None)
     else Some (snprintf 32 ''''))"

definition drawDateLine :: "layout \<Rightarrow> ClockTime \<Rightarrow> render \<Rightarrow> render option" where
  "drawDateLine L c r0 =
    (let r = emit [SetTextSize 2, SetTextColor COL_TEXT COL_BG] r0;
         line1 = dateText c
     in if line1 \<noteq> cstr (prevDateStr r)
        then (case weekdayText c of
                None \<Rightarrow> None
              | Some line2 \<Rightarrow>
                  Some ((emit [OceanBG 0 (sint (H L - 70)) (sint (W L)) 45,
                               SetCursor (sint ((W L - textW L line1) div 2)) (sint (H L - 70)),
                               Print line1,
                               SetCursor (sint ((W L - textW L line2) div 2)) (sint (H L - 50)),
                               Print line2] r)
                        \<lparr>prevDateStr := strncpy line1 16\<rparr>))
        else Some r)"

subsection \<open>Text lines\<close>

definition drawTitleStrip :: "layout \<Rightarrow> string \<Rightarrow> render \<Rightarrow> render" where
  \<comment> \<open>the second argument is the global \<open>lastStatus\<close>\<close>
  "drawTitleStrip L status r =
     emit [FillRect 0 0 (sint (W L)) 24 COL_GLOW2, SetTextSize 2, SetTextColor 0x0000 COL_GLOW2,
           SetCursor 6 4, Print ''BT SYNC: '', Print status] r"

definition ENV_LINE_LEN :: nat where "ENV_LINE_LEN = 26"

definition drawEnvLine :: "layout \<Rightarrow> string \<Rightarrow> render \<Rightarrow> render" where
  "drawEnvLine L s r =
    (let n = min (length s) ENV_LINE_LEN;
         buf = take ENV_LINE_LEN s @ replicate (ENV_LINE_LEN - n) CHR '' ''
     in emit [SetTextSize 2, SetTextColor COL_TEXT (ENV_BG L), SetCursor 6 26, Print buf] r)"

subsection \<open>Full repaint\<close>

definition forceRedrawAll :: "layout \<Rightarrow> ClockTime \<Rightarrow> render \<Rightarrow> render option" where
  "forceRedrawAll L c r0 =
    (let r = r0\<lparr>prevTimeStr := replicate 9 NUL, prevDateStr := replicate 16 NUL,
                 prevDigitMask := replicate 6 0, prevFillW := - 1\<rparr>;
         r = drawTimeDigits L c r
     in case drawDateLine L c r of
          None \<Rightarrow> None
        | Some r \<Rightarrow>
            Some (drawEnvLine L ''TEMP --.- C   HUM -- %''
                    (drawSecondsBarFill (word_of_int (second c))
                       (drawSecondsBarFrameOnce L r))))"

section \<open>Further concrete values\<close>

definition noTextW :: "string \<Rightarrow> 16 word" where
  "noTextW s = 0"

definition t_12_34_59 :: ClockTime where
  "t_12_34_59 = \<lparr>year = 0, month = 0, day = 0, hour = 12, minute = 34, second = 59,
                  hasDate = False, isSet = True\<rparr>"

section \<open>One rendering pass\<close>

definition renderPass :: "layout \<Rightarrow> ClockTime \<Rightarrow> render \<Rightarrow> render option" where
  \<comment> \<open>the three diffing renderers called with one clock value: \<open>drawTimeDigits (c)\<close>,
      \<open>drawDateLine (c)\<close>, \<open>drawSecondsBarFill (c.second)\<close>\<close>
  "renderPass L c r =
     (case drawDateLine L c (drawTimeDigits L c r) of
        None \<Rightarrow> None
      | Some r' \<Rightarrow> Some (drawSecondsBarFill (word_of_int (second c)) r'))"

definition panel :: layout where
  \<comment> \<open>a 320 x 240 panel with the initial geometry and 12-pixel glyphs\<close>
  "panel = layout0 320 240 0 (\<lambda>s. 12 * of_nat (length s))"

section \<open>The main loop\<close>

record hud =
  ct :: ClockTime
  lastTickMs :: "32 word"
  repaintAll :: bool
  lastStatus :: string
  btOut :: string
  scr :: render

text \<open>
  \<open>btOut\<close> collects the bytes written to the Bluetooth serial port; \<open>scr\<close> is the
  renderer's state.  \<open>millis ()\<close> enters as a parameter where it is read.
\<close>

definition hud0 :: hud where
  \<comment> \<open>the initialisers of the globals\<close>
  "hud0 = \<lparr>ct = ClockTime0, lastTickMs = 0, repaintAll = False,
           lastStatus = ''Waiting for time'', btOut = [], scr = render0\<rparr>"

subsection \<open>Serial line reader\<close>

fun readLine :: "string \<Rightarrow> string \<Rightarrow> string \<times> string" where
  \<comment> \<open>the \<open>while (BT_SERIAL.available ())\<close> loop over the received bytes: returns
      \<open>str_in[0..in_i)\<close> and the bytes left unread\<close>
  "readLine buf [] = (buf, [])"
| "readLine buf (c # rx) =
     (if c = CHR 0x0A \<or> c = CHR 0x0D then (buf, rx)
      else readLine (if length buf < 127 then buf @ [c] else buf) rx)"

definition println :: "string \<Rightarrow> string" where
  "println s = s @ [CHR 0x0D, CHR 0x0A]"

definition pollSerial :: "layout \<Rightarrow> 32 word \<Rightarrow> string \<Rightarrow> hud \<Rightarrow> hud \<times> string" where
  \<comment> \<open>the first block of \<open>loop\<close>; \<open>now\<close> is \<open>millis ()\<close> at the sync, \<open>rx\<close> the bytes that
      the port delivers\<close>
  "pollSerial L now rx st =
    (if rx \<noteq> []
     then (let (buf, rest) = readLine [] rx;
               in_i = length buf;
               str_in = cstr buf
           in if in_i > 0
              then (case parseTime str_in of
                      Some parsed \<Rightarrow>
                        (st\<lparr>ct := parsed\<lparr>isSet := True\<rparr>, lastTickMs := now, repaintAll := True,
                            btOut := btOut st @ ''SYNCED: '' @ println str_in,
                            lastStatus := ''Time synced'',
                            scr := drawTitleStrip L ''Time synced'' (scr st)\<rparr>, rest)
                    | None \<Rightarrow>
                        (st\<lparr>lastStatus := ''Invalid time format!'',
                            scr := drawTitleStrip L ''Invalid time format!'' (scr st),
                            btOut := btOut st @ ''INVALID: '' @ println str_in\<rparr>, rest))
              else (st, rest))
     else (st, rx))"

subsection \<open>Catch-up of elapsed seconds\<close>

definition loopBody :: "layout \<Rightarrow> hud \<Rightarrow> hud option" where
  \<comment> \<open>the body of \<open>while (ms - lastTickMs >= 1000UL)\<close>\<close>
  "loopBody L st0 =
    (let st = st0\<lparr>lastTickMs := lastTickMs st0 + 1000\<rparr>
     in case tickOneSecond (ct st) of
          None \<Rightarrow> None
        | Some c \<Rightarrow>
            (let r = drawTimeDigits L c (scr st);
                 r = drawSecondsBarFill (word_of_int (second c)) r
             in if hour c = 0 \<and> minute c = 0 \<and> second c = 0
                then (case drawDateLine L c r of
                        None \<Rightarrow> None
                      | Some r \<Rightarrow> Some (st\<lparr>ct := c, scr := r\<rparr>))
                else Some (st\<lparr>ct := c, scr := r\<rparr>)))"

function catchUp :: "layout \<Rightarrow> 32 word \<Rightarrow> hud \<Rightarrow> hud option" where
  "catchUp L ms st =
    (if ms - lastTickMs st \<ge> 1000
     then (case loopBody L st of None \<Rightarrow> None | Some st' \<Rightarrow> catchUp L ms st')
     else Some st)"
  by pat_completeness auto
termination
proof (relation "measure (\<lambda>(L, ms, st). unat (ms - lastTickMs st))")
  show "wf (measure (\<lambda>(L, ms, st). unat (ms - lastTickMs st)))" by simp
next
  fix L :: layout and ms :: "32 word" and st st' :: hud
  assume ge: "1000 \<le> ms - lastTickMs st" and b: "loopBody L st = Some st'"
  from b have l: "lastTickMs st' = lastTickMs st + 1000"
    by (auto simp: loopBody_def Let_def split: option.splits if_splits)
  have e: "ms - lastTickMs st' = (ms - lastTickMs st) - 1000" unfolding l by simp
  have s: "unat (ms - lastTickMs st') = unat (ms - lastTickMs st) - 1000"
    unfolding e using unat_sub [OF ge] by simp
  have "1000 \<le> unat (ms - lastTickMs st)"
    using ge by (simp add: word_le_nat_alt)
  with s have "unat (ms - lastTickMs st') < unat (ms - lastTickMs st)" by arith
  then show "((L, ms, st'), (L, ms, st)) \<in> measure (\<lambda>(L, ms, st). unat (ms - lastTickMs st))"
    by simp
qed

declare catchUp.simps [simp del]

definition advanceClock :: "layout \<Rightarrow> 32 word \<Rightarrow> hud \<Rightarrow> hud option" where
  \<comment> \<open>\<open>if (ct.isSet) { while ... }\<close>\<close>
  "advanceClock L ms st = (if isSet (ct st) then catchUp L ms st else Some st)"

fun bodyN :: "nat \<Rightarrow> layout \<Rightarrow> hud \<Rightarrow> hud option" where
  \<comment> \<open>the loop body executed \<open>n\<close> times in sequence\<close>
  "bodyN 0 L st = Some st"
| "bodyN (Suc n) L st = (case loopBody L st of None \<Rightarrow> None | Some st' \<Rightarrow> bodyN n L st')"

definition elapsedSeconds :: "32 word \<Rightarrow> hud \<Rightarrow> nat" where
  \<comment> \<open>whole seconds between \<open>lastTickMs\<close> and \<open>ms\<close>, as the unsigned subtraction sees them\<close>
  "elapsedSeconds ms st = unat (ms - lastTickMs st) div 1000"

definition monthSeconds :: "ClockTime \<Rightarrow> int" where
  \<comment> \<open>a measure that one tick raises by at most one: months counted as 28 days\<close>
  "monthSeconds t = (year t * 12 + month t) * 2419200 + (day t - 1) * 86400 + secOfDay t"

definition clockOK :: "ClockTime \<Rightarrow> bool" where
  \<comment> \<open>a valid time of day and, when dated, date fields as the parser leaves them\<close>
  "clockOK c = (validTime c \<and> (hasDate c \<longrightarrow> dateInRange c \<and> year c \<le> 9999))"

definition runOK :: "int \<Rightarrow> ClockTime \<Rightarrow> bool" where
  \<comment> \<open>a clock that can take \<open>budget\<close> more ticks with its year staying below 26000, where
      the 16-bit weekday sum cannot overflow\<close>
  "runOK budget c = (validTime c \<and> (hasDate c \<longrightarrow> dateInRange c
      \<and> monthSeconds c + budget \<le> 26000 * 29030400))"


definition syncedHud :: hud where
  \<comment> \<open>the state after a sync to 2024-02-28 23:59:59 at \<open>millis () = 5000\<close>\<close>
  "syncedHud = hud0\<lparr>ct := feb28_2024, lastTickMs := 5000\<rparr>"

definition feb29_2024_001 :: ClockTime where
  "feb29_2024_001 = \<lparr>year = 2024, month = 2, day = 29, hour = 0, minute = 0, second = 1,
                      hasDate = True, isSet = True\<rparr>"

section \<open>Environment line\<close>

text \<open>
  The sensor driver is an external collaborator: a reading is a \<open>float\<close>, or NaN when
  the read failed.  Readings are modelled as exact rationals, \<open>None\<close> standing for NaN,
  and \<open>dtostrf\<close> of the C library as rounding the magnitude to \<open>prec\<close> decimals, half
  away from zero, and right-justifying in \<open>width\<close> columns.

  The two threshold tests \<open>fabs (t - lastT) >= 0.2f\<close> and \<open>fabs (h - lastH) >= 1.0f\<close>
  are modelled on the exact difference, whereas the code rounds the difference to single
  precision and compares it with the constant \<open>0.2f\<close>, which is slightly above 2/10.
  Rounding is monotone, so an exact difference of at least 2/10 (or 1) also passes the
  test of the code.  In the other direction the two disagree only for an exact
  difference that lies below a threshold by less than the rounding error, for instance
  a cached 0.05 and a reading of 0.25, which print as 0.1 and 0.3.  The hysteresis
  property is therefore stated for states in which the cached text \<open>lastEnvStr\<close> is the
  line composed from the cached values \<open>lastT\<close> and \<open>lastH\<close>, as it is after every
  redraw of a valid reading, so that a reading which composes the cached text is printed
  with the same tenth of a degree as the cached temperature.
\<close>

record env =
  lastEnvRead :: "32 word"
  lastEnvStr :: string
  lastT :: "rat option"
  lastH :: "rat option"

definition env0 :: env where
  \<comment> \<open>the initialisers: \<open>lastEnvStr\<close> is \<open>char[27]\<close>, \<open>lastT\<close> and \<open>lastH\<close> are NaN\<close>
  "env0 = \<lparr>lastEnvRead = 0, lastEnvStr = replicate 27 NUL, lastT = None, lastH = None\<rparr>"

definition ENV_INTERVAL :: "32 word" where "ENV_INTERVAL = 2000"

definition pad_left :: "nat \<Rightarrow> string \<Rightarrow> string" where
  \<comment> \<open>right-justification in a field of \<open>w\<close> columns, as \<open>%ws\<close> does\<close>
  "pad_left w s = replicate (w - length s) CHR '' '' @ s"

definition dtostrf :: "rat \<Rightarrow> nat \<Rightarrow> nat \<Rightarrow> string" where
  "dtostrf x width prec =
    (let n = nat \<lfloor>\<bar>x\<bar> * 10 ^ prec + 1 / 2\<rfloor>;
         ip = dec (n div 10 ^ prec);
         fp = dec (n mod 10 ^ prec);
         body = (if prec = 0 then ip
                 else ip @ ''.'' @ replicate (prec - length fp) CHR ''0'' @ fp)
     in pad_left width (if x < 0 then CHR ''-'' # body else body))"

definition envLine :: "rat \<Rightarrow> rat \<Rightarrow> string option" where
  \<comment> \<open>the composed line for temperature \<open>t\<close> and humidity \<open>h\<close>; \<open>None\<close>: a formatted
      number does not fit its buffer \<open>char tbuf[8], hbuf[8]\<close>\<close>
  "envLine t h =
    (let tbuf = dtostrf t 4 1; hbuf = dtostrf h 3 0
     in if length tbuf < 8 \<and> length hbuf < 8
        then Some (snprintf 27 (''TEMP '' @ pad_left 4 tbuf @ '' C   HUM '' @ pad_left 3 hbuf
                                @ '' %''))
        else None)"

definition strncmp_differs :: "string \<Rightarrow> string \<Rightarrow> nat \<Rightarrow> bool" where
  \<comment> \<open>\<open>strncmp (a, b, n) != 0\<close> on C strings\<close>
  "strncmp_differs a b n = (take n a \<noteq> take n b)"

definition storeEnvStr :: "string \<Rightarrow> string" where
  \<comment> \<open>\<open>strncpy (lastEnvStr, line, ENV_LINE_LEN); lastEnvStr[ENV_LINE_LEN] = 0\<close>\<close>
  "storeEnvStr line = strncpy line ENV_LINE_LEN @ [NUL]"

definition updateEnv ::
  "layout \<Rightarrow> 32 word \<Rightarrow> rat option \<Rightarrow> rat option \<Rightarrow> env \<times> render \<Rightarrow> (env \<times> render) option" where
  \<comment> \<open>\<open>ms\<close> is \<open>millis ()\<close>, \<open>h\<close> and \<open>t\<close> are what the sensor returns\<close>
  "updateEnv L ms h t er =
    (let (e0, r) = er
     in if ms - lastEnvRead e0 < ENV_INTERVAL then Some (e0, r)
        else (let e = e0\<lparr>lastEnvRead := ms\<rparr>
              in case (h, t) of
                   (Some hv, Some tv) \<Rightarrow>
                     (case envLine tv hv of
                        None \<Rightarrow> None
                      | Some line \<Rightarrow>
                          (let changedValues =
                                 (case (lastT e, lastH e) of
                                    (Some lt, Some lh) \<Rightarrow>
                                      \<bar>tv - lt\<bar> \<ge> 2 / 10 \<or> \<bar>hv - lh\<bar> \<ge> 1
                                  | _ \<Rightarrow> True);
                               changedText =
                                 strncmp_differs line (cstr (lastEnvStr e)) ENV_LINE_LEN
                           in if changedValues \<or> changedText
                              then Some (e\<lparr>lastEnvStr := storeEnvStr line, lastT := Some tv,
                                           lastH := Some hv\<rparr>,
                                         drawEnvLine L line r)
                              else Some (e, r)))
                 | _ \<Rightarrow>
                     (let line = snprintf 27 ''TEMP --.- C   HUM -- %''
                      in if strncmp_differs line (cstr (lastEnvStr e)) ENV_LINE_LEN
                         then Some (e\<lparr>lastEnvStr := storeEnvStr line\<rparr>, drawEnvLine L line r)
                         else Some (e, r))))"

definition envShown :: env where
  \<comment> \<open>the environment state once 24.0 degrees and 50 percent have been rendered at
      \<open>millis () = 2000\<close>\<close>
  "envShown = \<lparr>lastEnvRead = 2000, lastEnvStr = storeEnvStr ''TEMP 24.0 C   HUM  50 %'',
               lastT = Some 24, lastH = Some 50\<rparr>"

section \<open>What a redraw puts on the display\<close>

text \<open>
  The painting that the specification asks of the hard-refresh digit renderer and of
  the seconds bar, written as lists of display calls and without reference to the
  renderer's code.  A digit cell whose character changed has its bounding box restored
  to the background and then every lit segment of the new digit drawn; the bar has the
  strip between the old and the new fill width painted or restored.
\<close>

definition segRect :: "layout \<Rightarrow> int \<Rightarrow> int \<Rightarrow> nat \<Rightarrow> tft_call" where
  \<comment> \<open>the rounded rectangle of one lit segment of the digit cell at \<open>(x0, y0)\<close>\<close>
  "segRect L x0 y0 seg =
    (let T = SEG_THICK L; LEN = SEG_LEN L; G = SEG_HGAP L; V = SEG_VLEN L; rad = c_div T 2
     in if seg = SEG_A then FillRoundRect (x0 + G) y0 LEN T rad COL_GLOW
        else if seg = SEG_G then FillRoundRect (x0 + G) (y0 + V + T) LEN T rad COL_GLOW
        else if seg = SEG_D then FillRoundRect (x0 + G) (y0 + 2 * V + 2 * T) LEN T rad COL_GLOW
        else if seg = SEG_B then FillRoundRect (x0 + G + LEN) (y0 + c_div T 2) T V rad COL_GLOW
        else if seg = SEG_C
          then FillRoundRect (x0 + G + LEN) (y0 + V + c_div (3 * T) 2) T V rad COL_GLOW
        else if seg = SEG_F then FillRoundRect x0 (y0 + c_div T 2) T V rad COL_GLOW
        else FillRoundRect x0 (y0 + V + c_div (3 * T) 2) T V rad COL_GLOW)"

definition glyphMask :: "char \<Rightarrow> 8 word" where
  \<comment> \<open>the segments of a character: the table entry of a digit, nothing otherwise\<close>
  "glyphMask ch = (if isDigitN ch then DIGIT_MASK ! nat (digitVal ch) else 0)"

definition cellPaint :: "layout \<Rightarrow> nat \<Rightarrow> 8 word \<Rightarrow> tft_call list" where
  \<comment> \<open>the repaint of digit cell \<open>di\<close> with segments \<open>m\<close>\<close>
  "cellPaint L di m =
     OceanBG (DIG_X L ! di) (DIGIT_Y L) (SEG_LEN L + 2 * SEG_HGAP L + SEG_THICK L)
       (2 * SEG_VLEN L + 3 * SEG_THICK L)
     # map (segRect L (DIG_X L ! di) (DIGIT_Y L))
         (filter (segIn m) [SEG_A, SEG_G, SEG_D, SEG_B, SEG_C, SEG_F, SEG_E])"

definition digitPaint :: "layout \<Rightarrow> string \<Rightarrow> string \<Rightarrow> tft_call list" where
  \<comment> \<open>the repaint of every digit cell whose character differs between the text shown
      and the new text; the pairs are character index and cell index\<close>
  "digitPaint L shown cur =
     concat (map (\<lambda>(i, di). if cur ! i = shown ! i then []
                              else cellPaint L di (glyphMask (cur ! i)))
               [(0, 0), (1, 1), (3, 2), (4, 3), (6, 4), (7, 5)])"

definition barPaint :: "int \<Rightarrow> int \<Rightarrow> int \<Rightarrow> tft_call list" where
  \<comment> \<open>the bar at row \<open>y\<close> going from fill width \<open>old\<close> (negative: never drawn) to \<open>new\<close>\<close>
  "barPaint y old new =
     (if new = old then []
      else if old < 0 then [FillRect barX y new barH COL_BAR]
      else if old < new then [FillRect (barX + old) y (new - old) barH COL_BAR]
      else [OceanBG (barX + new) y (old - new) barH])"

definition isMidnight :: "ClockTime \<Rightarrow> bool" where
  "isMidnight c = (hour c = 0 \<and> minute c = 0 \<and> second c = 0)"

definition t_12_34_56 :: ClockTime where
  "t_12_34_56 = \<lparr>year = 0, month = 0, day = 0, hour = 12, minute = 34, second = 56,
                  hasDate = False, isSet = True\<rparr>"

definition panelPlaced :: layout where
  \<comment> \<open>the 320 x 240 panel with six digit origins in a row below the text lines\<close>
  "panelPlaced = panel\<lparr>DIGIT_Y := 56, DIG_X := [19, 63, 117, 161, 215, 259]\<rparr>"

definition shownHud :: hud where
  \<comment> \<open>a set clock at 12:34:56 whose shadow state says that this time and its bar width
      are on the display\<close>
  "shownHud = \<lparr>ct = t_12_34_56, lastTickMs = 5000, repaintAll = False,
               lastStatus = ''Time synced'', btOut = [],
               scr = \<lparr>tft = [], prevTimeStr = ''12:34:56'' @ [NUL],
                      prevDateStr = replicate 16 NUL,
                      prevDigitMask = [0x06, 0x5B, 0x4F, 0x66, 0x6D, 0x7D],
                      prevFillW = 284, barY = 214, barW = 300\<rparr>\<rparr>"

section \<open>Properties of the time model\<close>

lemma s16_id: "- 32768 \<le> x \<Longrightarrow> x \<le> 32767 \<Longrightarrow> s16 x = x"
  by (simp add: s16_def)

subsection \<open>One second inside a day\<close>

lemma tick_second:
  "0 \<le> second t \<Longrightarrow> second t < 59 \<Longrightarrow> minute t < 60 \<Longrightarrow> hour t < 24 \<Longrightarrow>
   tickOneSecond t = Some (t\<lparr>second := second t + 1\<rparr>)"
  by (simp add: tickOneSecond_def Let_def s16_id)

lemma tick_minute:
  "second t = 59 \<Longrightarrow> 0 \<le> minute t \<Longrightarrow> minute t < 59 \<Longrightarrow> hour t < 24 \<Longrightarrow>
   tickOneSecond t = Some (t\<lparr>second := 0, minute := minute t + 1\<rparr>)"
  by (simp add: tickOneSecond_def Let_def s16_id)

lemma tick_hour:
  "second t = 59 \<Longrightarrow> minute t = 59 \<Longrightarrow> 0 \<le> hour t \<Longrightarrow> hour t < 23 \<Longrightarrow>
   tickOneSecond t = Some (t\<lparr>second := 0, minute := 0, hour := hour t + 1\<rparr>)"
  by (simp add: tickOneSecond_def Let_def s16_id)

lemma tick_within_day:
  assumes v: "validTime t" and lt: "secOfDay t < 86399"
  shows "\<exists>t'. tickOneSecond t = Some t' \<and> validTime t' \<and> secOfDay t' = secOfDay t + 1
              \<and> sameDate t t'"
proof -
  from v have r: "0 \<le> hour t" "hour t < 24" "0 \<le> minute t" "minute t < 60"
    "0 \<le> second t" "second t < 60" by (simp_all add: validTime_def)
  have "hour t < 23 \<or> minute t < 59 \<or> second t < 59"
    using r lt unfolding secOfDay_def by arith
  then consider (a) "second t < 59" | (b) "second t = 59" "minute t < 59"
    | (c) "second t = 59" "minute t = 59" "hour t < 23"
    using r by fastforce
  then show ?thesis
  proof cases
    case a
    with r have "tickOneSecond t = Some (t\<lparr>second := second t + 1\<rparr>)"
      by (intro tick_second)
    then show ?thesis using r a by (simp add: validTime_def secOfDay_def sameDate_def)
  next
    case b
    with r have "tickOneSecond t = Some (t\<lparr>second := 0, minute := minute t + 1\<rparr>)"
      by (intro tick_minute)
    then show ?thesis using r b by (simp add: validTime_def secOfDay_def sameDate_def)
  next
    case c
    with r have "tickOneSecond t = Some (t\<lparr>second := 0, minute := 0, hour := hour t + 1\<rparr>)"
      by (intro tick_hour)
    then show ?thesis using r c by (simp add: validTime_def secOfDay_def sameDate_def)
  qed
qed

lemma sameDate_trans: "sameDate a b \<Longrightarrow> sameDate b c \<Longrightarrow> sameDate a c"
  by (simp add: sameDate_def)

lemma tickN_within_day:
  "validTime t \<Longrightarrow> secOfDay t + int n < 86400 \<Longrightarrow>
   \<exists>t'. tickN n t = Some t' \<and> validTime t' \<and> secOfDay t' = secOfDay t + int n \<and> sameDate t t'"
proof (induction n arbitrary: t)
  case 0
  then show ?case by (simp add: sameDate_def)
next
  case (Suc n)
  from Suc.prems obtain t1 where t1: "tickOneSecond t = Some t1" "validTime t1"
    "secOfDay t1 = secOfDay t + 1" "sameDate t t1"
    using tick_within_day [of t] by auto
  from Suc.prems t1 obtain t2 where t2: "tickN n t1 = Some t2" "validTime t2"
    "secOfDay t2 = secOfDay t1 + int n" "sameDate t1 t2"
    using Suc.IH [of t1] by auto
  show ?case using t1 t2 by (auto intro: sameDate_trans)
qed

lemma end_of_day:
  "validTime t \<Longrightarrow> secOfDay t = 86399 \<Longrightarrow> hour t = 23 \<and> minute t = 59 \<and> second t = 59"
  unfolding validTime_def secOfDay_def by arith

lemma tickN_add:
  "tickN (m + n) t = (case tickN m t of None \<Rightarrow> None | Some t' \<Rightarrow> tickN n t')"
  by (induction m arbitrary: t) (simp_all split: option.splits)

lemma tick_then_full_day:
  assumes 1: "tickOneSecond t = Some m" and v: "validTime m" and z: "secOfDay m = 0"
  shows "tickN 86400 t = Some (m\<lparr>hour := 23, minute := 59, second := 59\<rparr>)"
proof -
  from v z obtain t' where t': "tickN 86399 m = Some t'" "validTime t'"
    "secOfDay t' = 86399" "sameDate m t'"
    using tickN_within_day [of m 86399] by auto
  from t' have f: "hour t' = 23" "minute t' = 59" "second t' = 59"
    using end_of_day [of t'] by simp_all
  have "t' = m\<lparr>hour := 23, minute := 59, second := 59\<rparr>"
    using f t'(4) by (intro ClockTime.equality) (simp_all add: sameDate_def)
  moreover have "tickN (1 + 86399) t = tickN 86399 m"
    unfolding tickN_add using 1 by simp
  ultimately show ?thesis using t'(1) by simp
qed

lemma tick_feb28_2024:
  "tickOneSecond feb28_2024
     = Some (feb28_2024\<lparr>day := 29, hour := 0, minute := 0, second := 0\<rparr>)"
  by (simp add: feb28_2024_def tickOneSecond_def Let_def s16_def daysInMonth_def isLeap_def)

lemma tick_feb28_2023:
  "tickOneSecond feb28_2023
     = Some (feb28_2023\<lparr>month := 3, day := 1, hour := 0, minute := 0, second := 0\<rparr>)"
  by (simp add: feb28_2023_def tickOneSecond_def Let_def s16_def daysInMonth_def isLeap_def)

lemma day_later_feb28_2024: "tickN 86400 feb28_2024 = Some (feb28_2024\<lparr>day := 29\<rparr>)"
  using tick_then_full_day [OF tick_feb28_2024]
  by (simp add: validTime_def secOfDay_def feb28_2024_def)

lemma day_later_feb28_2023:
  "tickN 86400 feb28_2023 = Some (feb28_2023\<lparr>month := 3, day := 1\<rparr>)"
  using tick_then_full_day [OF tick_feb28_2023]
  by (simp add: validTime_def secOfDay_def feb28_2023_def)

text \<open>
  C1 (as stated): 86400 applications of \<open>tickOneSecond\<close> to 2024-02-28 23:59:59 yield
  2024-02-29 00:00:00.  This fails: 86400 seconds are a whole day, so the result is
  2024-02-29 23:59:59; midnight is reached after one application.
\<close>

theorem C1_counterexample:
  "tickN 86400 feb28_2024
     \<noteq> Some \<lparr>year = 2024, month = 2, day = 29, hour = 0, minute = 0, second = 0,
              hasDate = True, isSet = True\<rparr>"
  unfolding day_later_feb28_2024 by (simp add: feb28_2024_def)

text \<open>
  C1 (amended): one application of \<open>tickOneSecond\<close> to 2024-02-28 23:59:59 yields
  2024-02-29 00:00:00 (2024 is a leap year under the Gregorian rule of \<open>isLeap\<close>) and
  86400 applications yield 2024-02-29 23:59:59; one application to 2023-02-28 23:59:59
  yields 2023-03-01 00:00:00 (2023 is not a leap year) and 86400 applications yield
  2023-03-01 23:59:59.
\<close>

theorem C1_leap_day_rollover:
  "tickN 1 feb28_2024
     = Some \<lparr>year = 2024, month = 2, day = 29, hour = 0, minute = 0, second = 0,
              hasDate = True, isSet = True\<rparr>
   \<and> tickN 86400 feb28_2024
     = Some \<lparr>year = 2024, month = 2, day = 29, hour = 23, minute = 59, second = 59,
              hasDate = True, isSet = True\<rparr>
   \<and> tickN 1 feb28_2023
     = Some \<lparr>year = 2023, month = 3, day = 1, hour = 0, minute = 0, second = 0,
              hasDate = True, isSet = True\<rparr>
   \<and> tickN 86400 feb28_2023
     = Some \<lparr>year = 2023, month = 3, day = 1, hour = 23, minute = 59, second = 59,
              hasDate = True, isSet = True\<rparr>
   \<and> isLeap 2024 \<and> \<not> isLeap 2023
   \<and> daysInMonth 2024 2 = Some 29 \<and> daysInMonth 2023 2 = Some 28"
proof -
  have one: "tickN 1 t = tickOneSecond t" for t
    by (simp split: option.splits)
  have "tickN 1 feb28_2024
     = Some \<lparr>year = 2024, month = 2, day = 29, hour = 0, minute = 0, second = 0,
              hasDate = True, isSet = True\<rparr>"
    unfolding one tick_feb28_2024 by (simp add: feb28_2024_def)
  moreover have "tickN 86400 feb28_2024
     = Some \<lparr>year = 2024, month = 2, day = 29, hour = 23, minute = 59, second = 59,
              hasDate = True, isSet = True\<rparr>"
    unfolding day_later_feb28_2024 by (simp add: feb28_2024_def)
  moreover have "tickN 1 feb28_2023
     = Some \<lparr>year = 2023, month = 3, day = 1, hour = 0, minute = 0, second = 0,
              hasDate = True, isSet = True\<rparr>"
    unfolding one tick_feb28_2023 by (simp add: feb28_2023_def)
  moreover have "tickN 86400 feb28_2023
     = Some \<lparr>year = 2023, month = 3, day = 1, hour = 23, minute = 59, second = 59,
              hasDate = True, isSet = True\<rparr>"
    unfolding day_later_feb28_2023 by (simp add: feb28_2023_def)
  moreover have "isLeap 2024 \<and> \<not> isLeap 2023
      \<and> daysInMonth 2024 2 = Some 29 \<and> daysInMonth 2023 2 = Some 28"
    by (simp add: isLeap_def daysInMonth_def)
  ultimately show ?thesis by blast
qed

subsection \<open>What the parser accepts\<close>

lemma digitVal_nonneg: "isDigitN c \<Longrightarrow> 0 \<le> digitVal c \<and> digitVal c \<le> 9"
  by (auto simp: isDigitN_def digitVal_def)

lemma to2_digits: "isDigitN (s ! k) \<Longrightarrow> isDigitN (s ! (k + 1)) \<Longrightarrow> to2 s k = num2 s k"
  by (simp add: to2_def num2_def)

lemma to4_digits0:
  "isDigitN (s ! 0) \<Longrightarrow> isDigitN (s ! 1) \<Longrightarrow> isDigitN (s ! 2)
   \<Longrightarrow> isDigitN (s ! 3) \<Longrightarrow> to4 s 0 = num4 s 0"
  by (simp add: to4_def num4_def numeral_2_eq_2)

lemma to4_ok0:
  "0 \<le> to4 s 0 \<Longrightarrow> isDigitN (s ! 0) \<and> isDigitN (s ! 1) \<and> isDigitN (s ! 2)
      \<and> isDigitN (s ! 3) \<and> to4 s 0 = num4 s 0"
  by (auto simp: to4_def num4_def numeral_2_eq_2 split: if_splits)

lemma to2_ok:
  "0 \<le> to2 s k \<Longrightarrow> isDigitN (s ! k) \<and> isDigitN (s ! (k + 1)) \<and> to2 s k = num2 s k"
  by (auto simp: to2_def num2_def split: if_splits)

lemma num2_nonneg: "isDigitN (s ! k) \<Longrightarrow> isDigitN (s ! (k + 1)) \<Longrightarrow> 0 \<le> num2 s k"
  using digitVal_nonneg [of "s ! k"] digitVal_nonneg [of "s ! (k + 1)"]
  by (simp add: num2_def)

lemma colon_not_digit: "\<not> isDigitN CHR '':''" "\<not> isDigitN CHR ''-''"
  by (simp_all add: isDigitN_def)

lemma parseTime_short:
  assumes pat: "8 \<le> length s" "isDigitN (s ! 0)" "isDigitN (s ! 1)" "s ! 2 = CHR '':''"
    "isDigitN (s ! 3)" "isDigitN (s ! 4)" "s ! 5 = CHR '':''" "isDigitN (s ! 6)" "isDigitN (s ! 7)"
    and s: "s = skipBlanks s0"
  shows "parseTime s0 =
     (if shortForm s
      then Some (ClockTime0\<lparr>hour := num2 s 0, minute := num2 s 3, second := num2 s 6,
                             hasDate := False, isSet := True\<rparr>)
      else None)"
    and "\<not> longForm s"
proof -
  have n: "0 \<le> num2 s 0" "0 \<le> num2 s 3" "0 \<le> num2 s 6"
    using pat digitVal_nonneg [of "s ! 0"] digitVal_nonneg [of "s ! 3"]
      digitVal_nonneg [of "s ! 6"] digitVal_nonneg [of "s ! 1"] digitVal_nonneg [of "s ! 4"]
      digitVal_nonneg [of "s ! 7"]
    by (simp_all add: num2_def)
  have t: "to2 s 0 = num2 s 0" "to2 s 3 = num2 s 3" "to2 s 6 = num2 s 6"
    using pat by (simp_all add: to2_def num2_def)
  have sf: "shortForm s = (num2 s 0 \<le> 23 \<and> num2 s 3 \<le> 59 \<and> num2 s 6 \<le> 59)"
    using pat by (simp add: shortForm_def shortFields_def digitsAt_def)
  show "parseTime s0 =
     (if shortForm s
      then Some (ClockTime0\<lparr>hour := num2 s 0, minute := num2 s 3, second := num2 s 6,
                             hasDate := False, isSet := True\<rparr>)
      else None)"
    unfolding parseTime_def s [symmetric] Let_def using pat n t sf
    by (auto simp: timeOutOfRange_def)
  show "\<not> longForm s" using pat colon_not_digit by (auto simp: longForm_def digitsAt_def)
qed


lemma parseTime_long:
  assumes npat: "\<not> (8 \<le> length s \<and> isDigitN (s ! 0) \<and> isDigitN (s ! 1) \<and> s ! 2 = CHR '':''
      \<and> isDigitN (s ! 3) \<and> isDigitN (s ! 4) \<and> s ! 5 = CHR '':''
      \<and> isDigitN (s ! 6) \<and> isDigitN (s ! 7))"
    and s: "s = skipBlanks s0"
  shows "parseTime s0 =
     (if longForm s
      then Some \<lparr>year = num4 s 0, month = num2 s 5, day = num2 s 8, hour = num2 s 11,
                  minute = num2 s 14, second = num2 s 17, hasDate = True, isSet = True\<rparr>
      else None)"
    and "\<not> shortForm s"
proof -
  show "\<not> shortForm s" using npat by (auto simp: shortForm_def shortFields_def digitsAt_def)
  show "parseTime s0 =
     (if longForm s
      then Some \<lparr>year = num4 s 0, month = num2 s 5, day = num2 s 8, hour = num2 s 11,
                  minute = num2 s 14, second = num2 s 17, hasDate = True, isSet = True\<rparr>
      else None)"
  proof (cases "19 \<le> length s \<and> isDigitN (s ! 0) \<and> s ! 4 = CHR ''-'' \<and> s ! 7 = CHR ''-''
      \<and> s ! 10 = CHR '' '' \<and> s ! 13 = CHR '':'' \<and> s ! 16 = CHR '':''")
    case False
    then have "\<not> longForm s" by (auto simp: longForm_def digitsAt_def)
    moreover have "parseTime s0 = None"
      unfolding parseTime_def s [symmetric] Let_def using npat False by auto
    ultimately show ?thesis by simp
  next
    case True
    let ?t = "\<lparr>year = to4 s 0, month = to2 s 5, day = to2 s 8, hour = to2 s 11,
                minute = to2 s 14, second = to2 s 17, hasDate = (to4 s 0 > 0), isSet = False\<rparr>"
    let ?ok = "(1970 \<le> to4 s 0) \<and> (1 \<le> to2 s 5 \<and> to2 s 5 \<le> 12) \<and> (1 \<le> to2 s 8 \<and> to2 s 8 \<le> 31)
        \<and> (0 \<le> to2 s 11 \<and> to2 s 11 \<le> 23) \<and> (0 \<le> to2 s 14 \<and> to2 s 14 \<le> 59)
        \<and> (0 \<le> to2 s 17 \<and> to2 s 17 \<le> 59)"
    have p: "parseTime s0 = (if ?ok then Some (?t\<lparr>isSet := True\<rparr>) else None)"
      unfolding parseTime_def s [symmetric] Let_def using npat True
      by (auto simp: timeOutOfRange_def ClockTime0_def)
    have l: "longForm s = ?ok"
    proof
      assume lf: "longForm s"
      then have d: "isDigitN (s ! 0)" "isDigitN (s ! 1)" "isDigitN (s ! 2)" "isDigitN (s ! 3)"
        "isDigitN (s ! 5)" "isDigitN (s ! 6)" "isDigitN (s ! 8)" "isDigitN (s ! 9)"
        "isDigitN (s ! 11)" "isDigitN (s ! 12)" "isDigitN (s ! 14)" "isDigitN (s ! 15)"
        "isDigitN (s ! 17)" "isDigitN (s ! 18)"
        by (simp_all add: longForm_def digitsAt_def)
      have v: "to4 s 0 = num4 s 0" "to2 s 5 = num2 s 5" "to2 s 8 = num2 s 8"
        "to2 s 11 = num2 s 11" "to2 s 14 = num2 s 14" "to2 s 17 = num2 s 17"
        using d to4_digits0 [of s] to2_digits [of s 5] to2_digits [of s 8]
          to2_digits [of s 11] to2_digits [of s 14] to2_digits [of s 17]
        by simp_all
      have nn: "0 \<le> num2 s 11" "0 \<le> num2 s 14" "0 \<le> num2 s 17"
        using d num2_nonneg [of s 11] num2_nonneg [of s 14] num2_nonneg [of s 17]
        by simp_all
      show "?ok" unfolding v using lf nn by (simp add: longForm_def)
    next
      assume ok: "?ok"
      have a: "isDigitN (s ! 0) \<and> isDigitN (s ! 1) \<and> isDigitN (s ! 2)
          \<and> isDigitN (s ! 3) \<and> to4 s 0 = num4 s 0"
        using ok by (intro to4_ok0) simp
      have b: "isDigitN (s ! 5) \<and> isDigitN (s ! (5 + 1)) \<and> to2 s 5 = num2 s 5"
        using ok by (intro to2_ok) simp
      have c: "isDigitN (s ! 8) \<and> isDigitN (s ! (8 + 1)) \<and> to2 s 8 = num2 s 8"
        using ok by (intro to2_ok) simp
      have d: "isDigitN (s ! 11) \<and> isDigitN (s ! (11 + 1)) \<and> to2 s 11 = num2 s 11"
        using ok by (intro to2_ok) simp
      have e: "isDigitN (s ! 14) \<and> isDigitN (s ! (14 + 1)) \<and> to2 s 14 = num2 s 14"
        using ok by (intro to2_ok) simp
      have f: "isDigitN (s ! 17) \<and> isDigitN (s ! (17 + 1)) \<and> to2 s 17 = num2 s 17"
        using ok by (intro to2_ok) simp
      show "longForm s" using True ok a b c d e f
        by (simp add: longForm_def digitsAt_def)
    qed
    show ?thesis
    proof (cases "longForm s")
      case False
      with p l show ?thesis by simp
    next
      case lf: True
      then have d: "isDigitN (s ! 0)" "isDigitN (s ! 1)" "isDigitN (s ! 2)" "isDigitN (s ! 3)"
        "isDigitN (s ! 5)" "isDigitN (s ! 6)" "isDigitN (s ! 8)" "isDigitN (s ! 9)"
        "isDigitN (s ! 11)" "isDigitN (s ! 12)" "isDigitN (s ! 14)" "isDigitN (s ! 15)"
        "isDigitN (s ! 17)" "isDigitN (s ! 18)" "1970 \<le> num4 s 0"
        by (simp_all add: longForm_def digitsAt_def)
      have v: "to4 s 0 = num4 s 0" "to2 s 5 = num2 s 5" "to2 s 8 = num2 s 8"
        "to2 s 11 = num2 s 11" "to2 s 14 = num2 s 14" "to2 s 17 = num2 s 17"
        using d to4_digits0 [of s] to2_digits [of s 5] to2_digits [of s 8]
          to2_digits [of s 11] to2_digits [of s 14] to2_digits [of s 17]
        by simp_all
      from lf l have "?ok" by simp
      with p have "parseTime s0 = Some (?t\<lparr>isSet := True\<rparr>)" by simp
      then show ?thesis using lf v d(15) by simp
    qed
  qed
qed

text \<open>
  C2 (as stated): the short grammar is \<open>HH:MM:SS\<close> with exactly 8 characters and every
  other input is rejected.  This fails: the length test is \<open>len >= 8\<close>, so a valid
  \<open>HH:MM:SS\<close> followed by further characters is accepted.
\<close>

theorem C2_counterexample:
  "parseTime ''12:34:56x''
     = Some \<lparr>year = 0, month = 0, day = 0, hour = 12, minute = 34, second = 56,
              hasDate = False, isSet = True\<rparr>
   \<and> \<not> specShortForm (skipBlanks ''12:34:56x'')
   \<and> \<not> longForm (skipBlanks ''12:34:56x'')"
  by (simp add: parseTime_def Let_def to2_def isDigitN_def digitVal_def ClockTime0_def
      timeOutOfRange_def skipBlanks_def specShortForm_def longForm_def)

text \<open>
  C2 (amended): \<open>parseTime\<close> succeeds exactly when the input, after its leading spaces
  and tabs, begins with \<open>HH:MM:SS\<close> (at least 8 characters, hour 0-23, minute and
  second 0-59) or is \<open>YYYY-MM-DD HH:MM:SS\<close> (at least 19 characters, separators at
  offsets 4, 7, 10, 13, 16, year at least 1970, month 1-12, day 1-31, same time ranges);
  characters after the matched prefix are ignored.  A successful parse has
  \<open>isSet\<close>, and \<open>hasDate\<close> exactly for the long form.
\<close>

theorem C2_parse_accepts_iff:
  "(parseTime s0 \<noteq> None) = (shortForm (skipBlanks s0) \<or> longForm (skipBlanks s0))
   \<and> (parseTime s0 = Some c \<longrightarrow> isSet c \<and> hasDate c = longForm (skipBlanks s0))"
proof (cases "8 \<le> length (skipBlanks s0) \<and> isDigitN (skipBlanks s0 ! 0)
      \<and> isDigitN (skipBlanks s0 ! 1) \<and> skipBlanks s0 ! 2 = CHR '':''
      \<and> isDigitN (skipBlanks s0 ! 3) \<and> isDigitN (skipBlanks s0 ! 4)
      \<and> skipBlanks s0 ! 5 = CHR '':''
      \<and> isDigitN (skipBlanks s0 ! 6) \<and> isDigitN (skipBlanks s0 ! 7)")
  case True
  then show ?thesis
    using parseTime_short [of "skipBlanks s0" s0] by (auto simp: ClockTime0_def)
next
  case False
  then show ?thesis
    using parseTime_long [of "skipBlanks s0" s0] by (auto split: if_splits)
qed


theorem C2_witness:
  "parseTime (CHR '' '' # CHR 0x09 # ''12:34:56'')
     = Some \<lparr>year = 0, month = 0, day = 0, hour = 12, minute = 34, second = 56,
              hasDate = False, isSet = True\<rparr>
   \<and> shortForm (skipBlanks (CHR '' '' # CHR 0x09 # ''12:34:56''))
   \<and> \<not> longForm (skipBlanks (CHR '' '' # CHR 0x09 # ''12:34:56''))
   \<and> parseTime ''2024-02-28 23:59:59'' = Some feb28_2024
   \<and> longForm (skipBlanks ''2024-02-28 23:59:59'')
   \<and> isSet feb28_2024 \<and> hasDate feb28_2024
   \<and> parseTime ''24:00:00'' = None
   \<and> \<not> shortForm (skipBlanks ''24:00:00'') \<and> \<not> longForm (skipBlanks ''24:00:00'')"
proof -
  let ?c = "\<lparr>year = 0, month = 0, day = 0, hour = 12, minute = 34, second = 56,
              hasDate = False, isSet = True\<rparr>"
  have a: "parseTime (CHR '' '' # CHR 0x09 # ''12:34:56'') = Some ?c"
    by (simp add: parseTime_def Let_def to2_def isDigitN_def digitVal_def ClockTime0_def
        timeOutOfRange_def skipBlanks_def)
  have b: "parseTime ''2024-02-28 23:59:59'' = Some feb28_2024"
    by (simp add: parseTime_def Let_def to2_def to4_def isDigitN_def digitVal_def
        ClockTime0_def timeOutOfRange_def skipBlanks_def feb28_2024_def)
  have c: "parseTime ''24:00:00'' = None"
    by (simp add: parseTime_def Let_def to2_def isDigitN_def digitVal_def ClockTime0_def
        timeOutOfRange_def skipBlanks_def)
  have d: "hasDate feb28_2024" "\<not> hasDate ?c" by (simp_all add: feb28_2024_def)
  from C2_parse_accepts_iff [of "CHR '' '' # CHR 0x09 # ''12:34:56''" ?c] a d
  have 1: "shortForm (skipBlanks (CHR '' '' # CHR 0x09 # ''12:34:56''))
      \<and> \<not> longForm (skipBlanks (CHR '' '' # CHR 0x09 # ''12:34:56''))"
    by auto
  from C2_parse_accepts_iff [of "''2024-02-28 23:59:59''" feb28_2024] b d
  have 2: "longForm (skipBlanks ''2024-02-28 23:59:59'') \<and> isSet feb28_2024" by auto
  from C2_parse_accepts_iff [of "''24:00:00''" ?c] c
  have 3: "\<not> shortForm (skipBlanks ''24:00:00'') \<and> \<not> longForm (skipBlanks ''24:00:00'')"
    by auto
  show ?thesis using a b c d 1 2 3 by simp
qed

subsection \<open>Calendar fields\<close>

lemma to4_range: "- 1 \<le> to4 s k \<and> to4 s k \<le> 9999"
  by (auto simp: to4_def isDigitN_def digitVal_def)

lemma parseTime_date:
  assumes "parseTime s = Some c" and "hasDate c"
  shows "dateInRange c \<and> year c \<le> 9999"
  using assms to4_range [of "skipBlanks s" 0]
  unfolding parseTime_def Let_def dateInRange_def
  by (auto split: if_splits)

lemma daysInMonth_bounds:
  "1 \<le> m \<Longrightarrow> m \<le> 12 \<Longrightarrow> \<exists>d. daysInMonth y m = Some d \<and> 28 \<le> d \<and> d \<le> 31"
proof -
  assume "1 \<le> m" "m \<le> 12"
  then have "m = 1 \<or> m = 2 \<or> m = 3 \<or> m = 4 \<or> m = 5 \<or> m = 6 \<or> m = 7 \<or> m = 8
      \<or> m = 9 \<or> m = 10 \<or> m = 11 \<or> m = 12" by arith
  then show ?thesis
    by (elim disjE) (simp_all add: daysInMonth_def monthDays_def)
qed

lemma tick_dateInRange:
  assumes inv: "hasDate t \<longrightarrow> dateInRange t" and y: "year t < 32767"
  shows "\<exists>t'. tickOneSecond t = Some t' \<and> hasDate t' = hasDate t
            \<and> (hasDate t' \<longrightarrow> dateInRange t')"
proof (cases "hasDate t")
  case False
  then show ?thesis by (simp add: tickOneSecond_def Let_def)
next
  case True
  with inv have r: "1970 \<le> year t" "1 \<le> month t" "month t \<le> 12" "1 \<le> day t" "day t \<le> 31"
    by (simp_all add: dateInRange_def)
  obtain d where d: "daysInMonth (year t) (month t) = Some d" "28 \<le> d" "d \<le> 31"
    using daysInMonth_bounds [OF r(2,3)] by blast
  have s: "s16 (day t + 1) = day t + 1" "s16 (month t + 1) = month t + 1"
    "s16 (year t + 1) = year t + 1" using r y by (simp_all add: s16_id)
  show ?thesis using True r d s
    by (simp add: tickOneSecond_def Let_def dateInRange_def)
qed

lemma tick_dateValid:
  assumes inv: "hasDate t \<longrightarrow> dateValid t" and y: "year t < 32767"
  shows "\<exists>t'. tickOneSecond t = Some t' \<and> hasDate t' = hasDate t
            \<and> (hasDate t' \<longrightarrow> dateValid t')"
proof (cases "hasDate t")
  case False
  then show ?thesis by (simp add: tickOneSecond_def Let_def)
next
  case True
  with inv have r: "1970 \<le> year t" "1 \<le> month t" "month t \<le> 12" "1 \<le> day t" 
    by (simp_all add: dateValid_def)
  obtain d where d: "daysInMonth (year t) (month t) = Some d" "28 \<le> d" "d \<le> 31"
    using daysInMonth_bounds [OF r(2,3)] by blast
  with inv True have dd: "day t \<le> d" by (simp add: dateValid_def)
  have s: "s16 (day t + 1) = day t + 1" "s16 (month t + 1) = month t + 1"
    "s16 (year t + 1) = year t + 1" using r y d dd by (simp_all add: s16_id)
  have nx: "month t < 12 \<Longrightarrow> \<exists>e. daysInMonth (year t) (month t + 1) = Some e \<and> 1 \<le> e"
    using daysInMonth_bounds [of "month t + 1" "year t"] r by fastforce
  have jan: "daysInMonth (year t + 1) 1 = Some 31" by (simp add: daysInMonth_def monthDays_def)
  show ?thesis using True r d dd s nx jan
    by (auto simp add: tickOneSecond_def Let_def dateValid_def)
qed


lemma tick_year_wraps:
  "tickOneSecond \<lparr>year = 32767, month = 12, day = 31, hour = 23, minute = 59, second = 59,
                   hasDate = True, isSet = True\<rparr>
     = Some \<lparr>year = - 32768, month = 1, day = 1, hour = 0, minute = 0, second = 0,
              hasDate = True, isSet = True\<rparr>"
  by (simp add: tickOneSecond_def Let_def s16_def daysInMonth_def monthDays_def)

text \<open>
  C3 (as stated): a successfully parsed date has its day in the valid range for its
  year and month (no February 31).  This fails: the parser tests the day against 1-31
  only, whatever the month.
\<close>

theorem C3_counterexample:
  "parseTime ''2024-02-31 00:00:00'' = Some feb31_2024
   \<and> hasDate feb31_2024 \<and> month feb31_2024 = 2 \<and> day feb31_2024 = 31
   \<and> daysInMonth 2024 2 = Some 29 \<and> \<not> dateValid feb31_2024"
  by (simp add: parseTime_def Let_def to2_def to4_def isDigitN_def digitVal_def
      ClockTime0_def timeOutOfRange_def skipBlanks_def feb31_2024_def dateValid_def
      daysInMonth_def isLeap_def)

text \<open>
  C3 (amended): a successfully parsed \<open>ClockTime\<close> with \<open>hasDate\<close> has a year of at
  least 1970, a month in 1-12 and a day in 1-31 (the day is not compared with the
  month's length); the parser also rejects years above 9999, a bound that ticking does
  not keep.  While the year is below 32767, the largest 16-bit \<open>int\<close>, every
  \<open>tickOneSecond\<close> step returns and preserves the range invariant (year at least 1970,
  month 1-12, day 1-31), and it also preserves the calendar invariant (year at least
  1970, month 1-12, day between 1 and the length of the month in that year) whenever
  that held before the step.
\<close>

theorem C3_date_invariants:
  "(parseTime s = Some c \<and> hasDate c \<longrightarrow> dateInRange c \<and> year c \<le> 9999)
   \<and> (hasDate t \<and> dateInRange t \<and> year t < 32767 \<longrightarrow>
        (\<exists>t'. tickOneSecond t = Some t' \<and> hasDate t' \<and> dateInRange t'))
   \<and> (hasDate t \<and> dateValid t \<and> year t < 32767 \<longrightarrow>
        (\<exists>t'. tickOneSecond t = Some t' \<and> hasDate t' \<and> dateValid t'))"
  using parseTime_date [of s c] tick_dateInRange [of t] tick_dateValid [of t]
  by auto

theorem C3_witness:
  "parseTime ''2024-02-28 23:59:59'' = Some feb28_2024 \<and> hasDate feb28_2024
   \<and> dateInRange feb28_2024 \<and> year feb28_2024 \<le> 9999 \<and> dateValid feb28_2024
   \<and> (\<exists>t'. tickOneSecond feb28_2024 = Some t' \<and> hasDate t' \<and> dateInRange t')
   \<and> (\<exists>t'. tickOneSecond feb28_2024 = Some t' \<and> hasDate t' \<and> dateValid t')"
proof -
  have p: "parseTime ''2024-02-28 23:59:59'' = Some feb28_2024"
    by (simp add: parseTime_def Let_def to2_def to4_def isDigitN_def digitVal_def
        ClockTime0_def timeOutOfRange_def skipBlanks_def feb28_2024_def)
  have h: "hasDate feb28_2024" "year feb28_2024 < 32767" by (simp_all add: feb28_2024_def)
  have v: "dateValid feb28_2024"
    by (simp add: feb28_2024_def dateValid_def daysInMonth_def isLeap_def)
  from C3_date_invariants [of "''2024-02-28 23:59:59''" feb28_2024 feb28_2024] p h v
  show ?thesis by simp
qed

subsection \<open>The month table is never read out of range\<close>

lemma tick_monthOK:
  assumes "monthOK t"
  shows "\<exists>t'. tickOneSecond t = Some t' \<and> monthOK t'"
proof (cases "hasDate t")
  case False
  then show ?thesis by (simp add: tickOneSecond_def Let_def monthOK_def)
next
  case True
  with assms have r: "1 \<le> month t" "month t \<le> 12" by (simp_all add: monthOK_def)
  obtain d where d: "daysInMonth (year t) (month t) = Some d"
    using daysInMonth_bounds [OF r] by blast
  have s: "s16 (month t + 1) = month t + 1" using r by (simp add: s16_id)
  show ?thesis using True r d s
    by (simp add: tickOneSecond_def Let_def monthOK_def)
qed

lemma parse_monthOK: "parseTime s = Some p \<Longrightarrow> monthOK (p\<lparr>isSet := True\<rparr>)"
  using parseTime_date [of s p] by (simp add: monthOK_def dateInRange_def)

lemma clockStep_monthOK: "monthOK c \<Longrightarrow> \<exists>c'. clockStep c e = Some c' \<and> monthOK c'"
  by (cases e) (auto simp: tick_monthOK parse_monthOK split: option.splits)

lemma clockRun_monthOK: "monthOK c \<Longrightarrow> \<exists>c'. clockRun c es = Some c' \<and> monthOK c'"
proof (induction es arbitrary: c)
  case Nil
  then show ?case by simp
next
  case (Cons e es)
  from Cons.prems obtain c1 where c1: "clockStep c e = Some c1" "monthOK c1"
    using clockStep_monthOK by blast
  with Cons.IH [of c1] show ?case by simp
qed

text \<open>
  C10: whatever lines are received and however many seconds elapse after startup, the
  clock reached has its month in 1-12 whenever \<open>hasDate\<close> holds, so the table read of
  \<open>daysInMonth\<close> is in range there and \<open>tickOneSecond\<close> returns; no run ends in an
  out-of-range read.
\<close>

theorem C10_month_lookup_in_bounds:
  "\<exists>c. clockRun ClockTime0 es = Some c
       \<and> (hasDate c \<longrightarrow> 1 \<le> month c \<and> month c \<le> 12
                        \<and> daysInMonth (year c) (month c) \<noteq> None)
       \<and> tickOneSecond c \<noteq> None"
proof -
  have "monthOK ClockTime0" by (simp add: monthOK_def ClockTime0_def)
  then obtain c where c: "clockRun ClockTime0 es = Some c" "monthOK c"
    using clockRun_monthOK by blast
  have "hasDate c \<longrightarrow> daysInMonth (year c) (month c) \<noteq> None"
    using c(2) daysInMonth_bounds [of "month c" "year c"] by (auto simp: monthOK_def)
  moreover have "tickOneSecond c \<noteq> None" using tick_monthOK [OF c(2)] by auto
  ultimately show ?thesis using c by (auto simp: monthOK_def)
qed

theorem C10_witness:
  "clockRun ClockTime0 [Line ''2024-12-31 23:59:59'', Second] = Some jan1_2025
   \<and> hasDate jan1_2025 \<and> 1 \<le> month jan1_2025 \<and> month jan1_2025 \<le> 12
   \<and> daysInMonth (year jan1_2025) (month jan1_2025) \<noteq> None
   \<and> tickOneSecond jan1_2025 \<noteq> None"
proof -
  have run: "clockRun ClockTime0 [Line ''2024-12-31 23:59:59'', Second] = Some jan1_2025"
    by code_simp
  have d: "hasDate jan1_2025" by (simp add: jan1_2025_def)
  from C10_month_lookup_in_bounds [of "[Line ''2024-12-31 23:59:59'', Second]"] run d
  show ?thesis by simp
qed

section \<open>Properties of the seconds bar\<close>

lemma c_div_nonneg: "0 \<le> a \<Longrightarrow> 0 < b \<Longrightarrow> c_div a b = a div b"
  by (cases "a = 0") (simp_all add: c_div_def)

lemma sec_word: "0 \<le> a \<Longrightarrow> a \<le> 59 \<Longrightarrow> uint (word_of_int a :: 8 word) = a"
  by (simp add: uint_word_of_int take_bit_eq_mod)

lemma fillWidth_eq:
  assumes "0 \<le> bw" "bw \<le> 32767" "0 \<le> a" "a \<le> 59"
  shows "fillWidth bw (word_of_int a) = (a * bw) div 59"
proof -
  have "a * bw \<le> 59 * bw" using assms by (intro mult_right_mono) simp_all
  then have "(a * bw) div 59 \<le> (59 * bw) div 59" by (rule zdiv_mono1) simp
  then have u: "(a * bw) div 59 \<le> bw" by simp
  have l: "0 \<le> (a * bw) div 59" using assms by (simp add: pos_imp_zdiv_nonneg_iff)
  have "arduino_map a 0 59 0 bw = (a * bw) div 59"
    using assms by (simp add: arduino_map_def c_div_nonneg)
  then show ?thesis using u l assms by (simp add: fillWidth_def sec_word s16_id)
qed

lemma fillWidth_mono:
  assumes "0 \<le> bw" "bw \<le> 32767" "0 \<le> a" "a \<le> b" "b \<le> 59"
  shows "fillWidth bw (word_of_int a) \<le> fillWidth bw (word_of_int b)"
proof -
  have "a * bw \<le> b * bw" using assms by (intro mult_right_mono) simp_all
  then have "(a * bw) div 59 \<le> (b * bw) div 59" by (rule zdiv_mono1) simp
  then show ?thesis using assms by (simp add: fillWidth_eq)
qed

lemma tick_second_cases:
  assumes "validTime t" "tickOneSecond t = Some t'"
  shows "second t' = second t + 1 \<and> second t' \<le> 59 \<or> second t = 59 \<and> second t' = 0"
proof -
  from assms(1) have r: "0 \<le> second t" "second t < 60" by (simp_all add: validTime_def)
  then have s: "s16 (second t + 1) = second t + 1" by (simp add: s16_id)
  show ?thesis
  proof (cases "second t = 59")
    case True
    with assms(2) s show ?thesis
      by (auto simp: tickOneSecond_def Let_def split: if_splits option.splits)
  next
    case False
    with r have "second t + 1 < 60" by simp
    with assms(2) s show ?thesis
      by (auto simp: tickOneSecond_def Let_def split: if_splits option.splits)
  qed
qed

text \<open>
  C7: for a bar width \<open>bw\<close> that is a non-negative 16-bit \<open>int\<close>, the fill width computed
  by \<open>drawSecondsBarFill\<close> is non-decreasing in the second over 0-59, runs from 0 to
  \<open>bw\<close>, and across a \<open>tickOneSecond\<close> step of a clock with a valid time of day it gets
  smaller only when the second goes from 59 back to 0.
\<close>

theorem C7_bar_monotone:
  assumes "0 \<le> bw" and "bw \<le> 32767"
  shows "(0 \<le> a \<and> a \<le> b \<and> b \<le> 59 \<longrightarrow>
            fillWidth bw (word_of_int a) \<le> fillWidth bw (word_of_int b))
       \<and> (validTime t \<and> tickOneSecond t = Some t'
            \<and> fillWidth bw (word_of_int (second t')) < fillWidth bw (word_of_int (second t))
          \<longrightarrow> second t = 59 \<and> second t' = 0)
       \<and> fillWidth bw 0 = 0 \<and> fillWidth bw 59 = bw"
proof -
  have m: "0 \<le> a \<and> a \<le> b \<and> b \<le> 59 \<longrightarrow>
            fillWidth bw (word_of_int a) \<le> fillWidth bw (word_of_int b)"
    using assms fillWidth_mono by blast
  have r: "validTime t \<and> tickOneSecond t = Some t'
            \<and> fillWidth bw (word_of_int (second t')) < fillWidth bw (word_of_int (second t))
          \<longrightarrow> second t = 59 \<and> second t' = 0"
  proof (intro impI, elim conjE)
    assume v: "validTime t" and k: "tickOneSecond t = Some t'"
      and lt: "fillWidth bw (word_of_int (second t')) < fillWidth bw (word_of_int (second t))"
    from v have z: "0 \<le> second t" by (simp add: validTime_def)
    from tick_second_cases [OF v k] show "second t = 59 \<and> second t' = 0"
    proof
      assume n: "second t' = second t + 1 \<and> second t' \<le> 59"
      then have "fillWidth bw (word_of_int (second t)) \<le> fillWidth bw (word_of_int (second t'))"
        using assms z by (intro fillWidth_mono) simp_all
      with lt show ?thesis by simp
    qed
  qed
  have e: "fillWidth bw 0 = 0" "fillWidth bw 59 = bw"
    using fillWidth_eq [OF assms, of 0] fillWidth_eq [OF assms, of 59] by simp_all
  show ?thesis using m r e by blast
qed

theorem C7_witness:
  "(0::int) \<le> 300 \<and> (300::int) \<le> 32767
   \<and> fillWidth 300 (word_of_int 10) \<le> fillWidth 300 (word_of_int 30)
   \<and> validTime t_12_34_59
   \<and> tickOneSecond t_12_34_59 = Some (t_12_34_59\<lparr>minute := 35, second := 0\<rparr>)
   \<and> fillWidth 300 (word_of_int (second (t_12_34_59\<lparr>minute := 35, second := 0\<rparr>)))
       < fillWidth 300 (word_of_int (second t_12_34_59))
   \<and> second t_12_34_59 = 59 \<and> second (t_12_34_59\<lparr>minute := 35, second := 0\<rparr>) = 0
   \<and> fillWidth 300 0 = 0 \<and> fillWidth 300 59 = 300"
proof -
  have b: "(0::int) \<le> 300" "(300::int) \<le> 32767" by simp_all
  have v: "validTime t_12_34_59" by (simp add: validTime_def t_12_34_59_def)
  have k: "tickOneSecond t_12_34_59 = Some (t_12_34_59\<lparr>minute := 35, second := 0\<rparr>)"
    by (simp add: tickOneSecond_def Let_def s16_def t_12_34_59_def)
  have lt: "fillWidth 300 (word_of_int (second (t_12_34_59\<lparr>minute := 35, second := 0\<rparr>)))
       < fillWidth 300 (word_of_int (second t_12_34_59))"
    by (simp add: fillWidth_def arduino_map_def c_div_def s16_def t_12_34_59_def)
  from C7_bar_monotone [OF b, of 10 30 t_12_34_59 "t_12_34_59\<lparr>minute := 35, second := 0\<rparr>"]
    v k lt
  show ?thesis by simp
qed

section \<open>Properties of the auto-size loop\<close>

lemmas min_defs = MIN_SP_def MIN_COLON_def MIN_LEN_def MIN_VLEN_def MIN_THICK_def















text \<open>
  The loop's test compares the row width with \<open>W - 2*MARGIN\<close> in 16-bit unsigned
  arithmetic.  For a display at least as wide as the two margins this is the comparison
  of the integers.  A narrower display, which no panel is, would make the subtraction
  wrap and the test succeed at once, as the evaluation below shows.
\<close>

lemma autoSize_narrower_than_margins:
  "autoSizeToFit (layout0 5 240 0 noTextW) = layout0 5 240 0 noTextW
   \<and> totalRowWidth (layout0 5 240 0 noTextW) = 282
   \<and> \<not> totalRowWidth (layout0 5 240 0 noTextW) \<le> uint (5 :: 16 word) - 2 * MARGIN
   \<and> \<not> allAtMin (layout0 5 240 0 noTextW)"
  by (simp add: autoSizeToFit_def autoSizeFrom.simps [of 0] shrinkStep_def rowFits_def
      totalRowWidth_def layout0_def MARGIN_def allAtMin_def params_def minima_def min_defs)




section \<open>Properties of the diffing renderers\<close>

subsection \<open>Formatted text\<close>

lemma digitChar_not_NUL: "d < 10 \<Longrightarrow> digitChar d \<noteq> NUL"
proof -
  assume "d < 10"
  then have "of_char (digitChar d) = 48 + d"
    by (simp add: digitChar_def)
  then show ?thesis by (auto simp: NUL_def)
qed

lemma dec_no_NUL: "NUL \<notin> set (dec n)"
proof (induction n rule: dec.induct)
  case (1 n)
  show ?case
  proof (cases "n < 10")
    case True
    then show ?thesis by (simp add: dec.simps [of n] digitChar_not_NUL [symmetric])
  next
    case False
    have "digitChar (n mod 10) \<noteq> NUL" by (rule digitChar_not_NUL) simp
    with False "1.IH" show ?thesis by (auto simp: dec.simps [of n])
  qed
qed

lemma dec_nonempty: "dec n \<noteq> []"
  by (simp add: dec.simps [of n])

lemma fmt_0d_no_NUL: "NUL \<notin> set (fmt_0d w x)"
  using dec_no_NUL [of "nat \<bar>x\<bar>"] by (auto simp: fmt_0d_def Let_def NUL_def)

lemma fmt_0d_length: "0 < w \<Longrightarrow> w \<le> length (fmt_0d w x)"
  using dec_nonempty [of "nat \<bar>x\<bar>"] by (cases "dec (nat \<bar>x\<bar>)") (auto simp: fmt_0d_def Let_def)

lemma timeText_length: "length (timeText c) = 8"
  using fmt_0d_length [of 2 "hour c"] fmt_0d_length [of 2 "minute c"]
    fmt_0d_length [of 2 "second c"]
  by (simp add: timeText_def snprintf_def)

lemma dateText_no_NUL: "NUL \<notin> set (dateText c)"
proof -
  have "set (dateText c) \<subseteq> set (fmt_0d 2 (if hasDate c \<and> day c \<noteq> 0 then day c else 0) @ ''-''
      @ fmt_0d 2 (if hasDate c \<and> month c \<noteq> 0 then month c else 0) @ ''-''
      @ fmt_0d 4 (if hasDate c \<and> year c \<noteq> 0 then year c else 0))"
    unfolding dateText_def snprintf_def by (rule set_take_subset)
  moreover have "NUL \<notin> \<dots>"
    using fmt_0d_no_NUL by (simp add: NUL_def)
  ultimately show ?thesis by blast
qed

lemma dateText_length: "length (dateText c) \<le> 15"
  by (simp add: dateText_def snprintf_def)

lemma cstr_strncpy: "NUL \<notin> set s \<Longrightarrow> length s < n \<Longrightarrow> cstr (strncpy s n) = s"
proof -
  assume a: "NUL \<notin> set s" and b: "length s < n"
  from b obtain k where k: "n - length s = Suc k" by (cases "n - length s") simp_all
  have "strncpy s n = s @ replicate (n - length s) NUL"
    using b by (simp add: strncpy_def)
  then have "strncpy s n = s @ NUL # replicate k NUL" by (simp add: k)
  then show ?thesis using a by (auto simp add: cstr_def takeWhile_tail)
qed

lemma strncpy_nth: "i < length s \<Longrightarrow> length s \<le> n \<Longrightarrow> strncpy s n ! i = s ! i"
  by (simp add: strncpy_def nth_append)


subsection \<open>Fields that the renderers leave alone\<close>

lemma emit_fields [simp]:
  "prevTimeStr (emit cs r) = prevTimeStr r" "prevDateStr (emit cs r) = prevDateStr r"
  "prevDigitMask (emit cs r) = prevDigitMask r" "prevFillW (emit cs r) = prevFillW r"
  "barY (emit cs r) = barY r" "barW (emit cs r) = barW r" "tft (emit cs r) = tft r @ cs"
  by (simp_all add: emit_def)

lemma hardRefreshDigit_fields [simp]:
  "prevTimeStr (hardRefreshDigit L di m r) = prevTimeStr r"
  "prevDateStr (hardRefreshDigit L di m r) = prevDateStr r"
  "prevFillW (hardRefreshDigit L di m r) = prevFillW r"
  "barY (hardRefreshDigit L di m r) = barY r" "barW (hardRefreshDigit L di m r) = barW r"
  by (simp_all add: hardRefreshDigit_def Let_def)

lemma timeCell_fields [simp]:
  "prevTimeStr (timeCell L cur r i) = prevTimeStr r"
  "prevDateStr (timeCell L cur r i) = prevDateStr r"
  "prevFillW (timeCell L cur r i) = prevFillW r"
  "barY (timeCell L cur r i) = barY r" "barW (timeCell L cur r i) = barW r"
  by (simp_all add: timeCell_def Let_def)

lemma foldl_timeCell_fields [simp]:
  "prevTimeStr (foldl (timeCell L cur) r is) = prevTimeStr r"
  "prevDateStr (foldl (timeCell L cur) r is) = prevDateStr r"
  "prevFillW (foldl (timeCell L cur) r is) = prevFillW r"
  "barY (foldl (timeCell L cur) r is) = barY r" "barW (foldl (timeCell L cur) r is) = barW r"
  by (induction "is" arbitrary: r; simp)+

lemma drawTimeDigits_fields [simp]:
  "prevTimeStr (drawTimeDigits L c r) = strncpy (timeText c) 9"
  "prevDateStr (drawTimeDigits L c r) = prevDateStr r"
  "prevFillW (drawTimeDigits L c r) = prevFillW r"
  "barY (drawTimeDigits L c r) = barY r" "barW (drawTimeDigits L c r) = barW r"
  by (simp_all add: drawTimeDigits_def Let_def)

lemma drawSecondsBarFill_fields [simp]:
  "prevTimeStr (drawSecondsBarFill s r) = prevTimeStr r"
  "prevDateStr (drawSecondsBarFill s r) = prevDateStr r"
  "prevFillW (drawSecondsBarFill s r) = fillWidth (barW r) s"
  "barY (drawSecondsBarFill s r) = barY r" "barW (drawSecondsBarFill s r) = barW r"
  by (simp_all add: drawSecondsBarFill_def Let_def)

lemma drawDateLine_fields:
  assumes "drawDateLine L c r = Some r'"
  shows "prevTimeStr r' = prevTimeStr r" "prevFillW r' = prevFillW r" "barY r' = barY r"
    "barW r' = barW r" "cstr (prevDateStr r') = dateText c"
proof -
  have k: "cstr (strncpy (dateText c) 16) = dateText c"
    using dateText_no_NUL [of c] dateText_length [of c] by (intro cstr_strncpy) simp_all
  show "prevTimeStr r' = prevTimeStr r" "prevFillW r' = prevFillW r" "barY r' = barY r"
    "barW r' = barW r" "cstr (prevDateStr r') = dateText c"
    using assms k by (auto simp: drawDateLine_def Let_def split: if_splits option.splits)
qed

subsection \<open>Second calls\<close>

lemma foldl_unchanged: "(\<And>i. i \<in> set is \<Longrightarrow> f r i = r) \<Longrightarrow> foldl f r is = r"
  by (induction "is") simp_all

lemma drawTimeDigits_again:
  assumes "prevTimeStr r = strncpy (timeText c) 9"
  shows "drawTimeDigits L c r = r"
proof -
  have "timeCell L (timeText c) r i = r" if "i \<in> set [0..<8]" for i
  proof -
    from that have "i < length (timeText c)" by (simp add: timeText_length)
    then have "strncpy (timeText c) 9 ! i = timeText c ! i"
      by (intro strncpy_nth) (simp_all add: timeText_length)
    then show ?thesis using assms by (simp add: timeCell_def)
  qed
  then have "foldl (timeCell L (timeText c)) r [0..<8] = r" by (rule foldl_unchanged)
  then show ?thesis using assms by (simp add: drawTimeDigits_def Let_def)
qed

lemma drawDateLine_again:
  assumes "cstr (prevDateStr r) = dateText c"
  shows "drawDateLine L c r = Some (emit [SetTextSize 2, SetTextColor COL_TEXT COL_BG] r)"
  using assms by (simp add: drawDateLine_def Let_def)

lemma drawSecondsBarFill_again:
  assumes "prevFillW r = fillWidth (barW r) s"
  shows "drawSecondsBarFill s r = r"
  using assms by (simp add: drawSecondsBarFill_def Let_def)

text \<open>
  C6: after one pass of \<open>drawTimeDigits\<close>, \<open>drawDateLine\<close> and \<open>drawSecondsBarFill\<close> with
  a clock value, from any shadow state, a second pass with the same value returns and
  leaves the shadow state as it is; the only calls it makes on the display are the two
  text-attribute settings at the head of \<open>drawDateLine\<close>, neither of which draws or
  erases.
\<close>

theorem C6_second_pass_draws_nothing:
  assumes "renderPass L c r = Some r1"
  shows "renderPass L c r1 = Some (emit [SetTextSize 2, SetTextColor COL_TEXT COL_BG] r1)
         \<and> \<not> paints (SetTextSize 2) \<and> \<not> paints (SetTextColor COL_TEXT COL_BG)"
proof -
  from assms obtain rd where rd: "drawDateLine L c (drawTimeDigits L c r) = Some rd"
    and r1: "r1 = drawSecondsBarFill (word_of_int (second c)) rd"
    by (auto simp: renderPass_def split: option.splits)
  note f = drawDateLine_fields [OF rd]
  have t: "prevTimeStr r1 = strncpy (timeText c) 9" by (simp add: r1 f)
  have d: "cstr (prevDateStr r1) = dateText c" by (simp add: r1 f)
  have b: "prevFillW r1 = fillWidth (barW r1) (word_of_int (second c))" by (simp add: r1 f)
  have 1: "drawTimeDigits L c r1 = r1" using t by (rule drawTimeDigits_again)
  have 2: "drawDateLine L c r1 = Some (emit [SetTextSize 2, SetTextColor COL_TEXT COL_BG] r1)"
    using d by (rule drawDateLine_again)
  have 3: "drawSecondsBarFill (word_of_int (second c))
             (emit [SetTextSize 2, SetTextColor COL_TEXT COL_BG] r1)
           = emit [SetTextSize 2, SetTextColor COL_TEXT COL_BG] r1"
    using b by (intro drawSecondsBarFill_again) simp
  show ?thesis by (simp add: renderPass_def 1 2 3)
qed

lemma weekdayText_feb28: "weekdayText feb28_2024 = Some ''Wednesday , February 28''"
  by code_simp

lemma renderPass_returns: "weekdayText c = Some x \<Longrightarrow> renderPass L c r \<noteq> None"
  by (simp add: renderPass_def drawDateLine_def Let_def split: option.splits)

theorem C6_witness:
  "renderPass panel feb28_2024 render0 \<noteq> None
   \<and> renderPass panel feb28_2024 (the (renderPass panel feb28_2024 render0))
       = Some (emit [SetTextSize 2, SetTextColor COL_TEXT COL_BG]
                 (the (renderPass panel feb28_2024 render0)))"
proof -
  have "renderPass panel feb28_2024 render0 \<noteq> None"
    using weekdayText_feb28 by (rule renderPass_returns)
  then obtain r1 where r1: "renderPass panel feb28_2024 render0 = Some r1" by blast
  from C6_second_pass_draws_nothing [OF r1] r1 show ?thesis by simp
qed

section \<open>Properties of the serial line handler\<close>

lemma pollSerial_reject:
  assumes "readLine [] rx = (buf, rest)" and "parseTime (cstr buf) = None"
  shows "pollSerial L now rx st =
     (if buf = [] then st
      else st\<lparr>lastStatus := ''Invalid time format!'',
              scr := drawTitleStrip L ''Invalid time format!'' (scr st),
              btOut := btOut st @ ''INVALID: '' @ println (cstr buf)\<rparr>, rest)"
proof (cases "rx = []")
  case True
  with assms(1) show ?thesis by (simp add: pollSerial_def)
next
  case False
  with assms show ?thesis by (simp add: pollSerial_def)
qed

text \<open>
  C4 (as stated): every received line on which \<open>parseTime\<close> fails leaves the clock
  unchanged and gets the \<open>INVALID: \<close> echo.  The echo fails for the empty line (a bare
  terminator, such as the line feed after a carriage return): \<open>in_i > 0\<close> guards the
  parser call, nothing is written and the status line stays.
\<close>

theorem C4_counterexample:
  "readLine [] [CHR 0x0A] = ([], [])
   \<and> parseTime (cstr []) = None
   \<and> btOut (fst (pollSerial panel 5000 [CHR 0x0A] hud0)) = btOut hud0
   \<and> lastStatus (fst (pollSerial panel 5000 [CHR 0x0A] hud0)) = ''Waiting for time''"
  by (simp add: pollSerial_def cstr_def parseTime_def skipBlanks_def Let_def hud0_def)

text \<open>
  C4 (amended): \<open>parseTime\<close> is a function of the line alone; for every received line on
  which it fails, the handler leaves the clock, the tick reference and the repaint flag
  unchanged; if the line is not empty it appends \<open>INVALID: \<close>, the line and CR LF to the
  serial output and sets the status to the rejection text, with no acknowledgment; if the
  line is empty it changes nothing and writes nothing.
\<close>

theorem C4_rejected_line:
  assumes "readLine [] rx = (buf, rest)" and "parseTime (cstr buf) = None"
  shows "ct (fst (pollSerial L now rx st)) = ct st
       \<and> lastTickMs (fst (pollSerial L now rx st)) = lastTickMs st
       \<and> repaintAll (fst (pollSerial L now rx st)) = repaintAll st
       \<and> (buf \<noteq> [] \<longrightarrow>
            btOut (fst (pollSerial L now rx st)) = btOut st @ ''INVALID: '' @ println (cstr buf)
            \<and> lastStatus (fst (pollSerial L now rx st)) = ''Invalid time format!'')
       \<and> (buf = [] \<longrightarrow> fst (pollSerial L now rx st) = st)"
  unfolding pollSerial_reject [OF assms] by simp

theorem C4_witness:
  "readLine [] (''25:00:00'' @ [CHR 0x0A]) = (''25:00:00'', [])
   \<and> parseTime (cstr ''25:00:00'') = None
   \<and> ct (fst (pollSerial panel 9000 (''25:00:00'' @ [CHR 0x0A]) syncedHud)) = feb28_2024
   \<and> lastTickMs (fst (pollSerial panel 9000 (''25:00:00'' @ [CHR 0x0A]) syncedHud)) = 5000
   \<and> \<not> repaintAll (fst (pollSerial panel 9000 (''25:00:00'' @ [CHR 0x0A]) syncedHud))
   \<and> btOut (fst (pollSerial panel 9000 (''25:00:00'' @ [CHR 0x0A]) syncedHud))
       = ''INVALID: 25:00:00'' @ [CHR 0x0D, CHR 0x0A]
   \<and> lastStatus (fst (pollSerial panel 9000 (''25:00:00'' @ [CHR 0x0A]) syncedHud))
       = ''Invalid time format!''"
proof -
  have r: "readLine [] (''25:00:00'' @ [CHR 0x0A]) = (''25:00:00'', [])" by simp
  have c: "cstr ''25:00:00'' = ''25:00:00''" by (simp add: cstr_def NUL_def)
  have p: "parseTime (cstr ''25:00:00'') = None"
    unfolding c
    by (simp add: parseTime_def Let_def to2_def isDigitN_def digitVal_def ClockTime0_def
        timeOutOfRange_def skipBlanks_def)
  from C4_rejected_line [OF r p, of panel 9000 syncedHud] r p
  show ?thesis by (simp add: c syncedHud_def hud0_def println_def)
qed

section \<open>Properties of the catch-up loop\<close>

lemma loopBody_Some:
  assumes "loopBody L st = Some st1"
  shows "lastTickMs st1 = lastTickMs st + 1000"
    and "tickOneSecond (ct st) = Some (ct st1)"
    and "prevTimeStr (scr st1) = strncpy (timeText (ct st1)) 9"
    and "prevFillW (scr st1) = fillWidth (barW (scr st)) (word_of_int (second (ct st1)))"
    and "repaintAll st1 = repaintAll st" and "btOut st1 = btOut st"
proof -
  from assms obtain c where c: "tickOneSecond (ct st) = Some c"
    by (auto simp: loopBody_def Let_def split: option.splits)
  let ?r = "drawSecondsBarFill (word_of_int (second c)) (drawTimeDigits L c (scr st))"
  from assms c consider (plain) "st1 = st\<lparr>lastTickMs := lastTickMs st + 1000, ct := c, scr := ?r\<rparr>"
    | (date) rd where "drawDateLine L c ?r = Some rd"
        "st1 = st\<lparr>lastTickMs := lastTickMs st + 1000, ct := c, scr := rd\<rparr>"
    by (auto simp: loopBody_def Let_def split: option.splits if_splits)
  then have "lastTickMs st1 = lastTickMs st + 1000 \<and> ct st1 = c
      \<and> prevTimeStr (scr st1) = strncpy (timeText c) 9
      \<and> prevFillW (scr st1) = fillWidth (barW (scr st)) (word_of_int (second c))
      \<and> repaintAll st1 = repaintAll st \<and> btOut st1 = btOut st"
  proof cases
    case plain
    then show ?thesis by simp
  next
    case date
    then show ?thesis using drawDateLine_fields [OF date(1)] by simp
  qed
  with c show "lastTickMs st1 = lastTickMs st + 1000"
    and "tickOneSecond (ct st) = Some (ct st1)"
    and "prevTimeStr (scr st1) = strncpy (timeText (ct st1)) 9"
    and "prevFillW (scr st1) = fillWidth (barW (scr st)) (word_of_int (second (ct st1)))"
    and "repaintAll st1 = repaintAll st" and "btOut st1 = btOut st"
    by simp_all
qed

lemma elapsed_step:
  assumes ge: "(1000 :: 32 word) \<le> ms - l"
  shows "unat (ms - (l + 1000)) = unat (ms - l) - 1000" and "1000 \<le> unat (ms - l)"
proof -
  have e: "ms - (l + 1000) = (ms - l) - 1000" by simp
  show "unat (ms - (l + 1000)) = unat (ms - l) - 1000"
    unfolding e using unat_sub [OF ge] by simp
  show "1000 \<le> unat (ms - l)" using ge by (simp add: word_le_nat_alt)
qed

lemma elapsedSeconds_Suc:
  assumes "1000 \<le> ms - lastTickMs st" and "lastTickMs st1 = lastTickMs st + 1000"
  shows "elapsedSeconds ms st = Suc (elapsedSeconds ms st1)"
proof -
  note s = elapsed_step [OF assms(1)]
  have "unat (ms - lastTickMs st) = unat (ms - lastTickMs st1) + 1000"
    using s assms(2) by simp
  then show ?thesis by (simp add: elapsedSeconds_def)
qed

lemma elapsedSeconds_0: "\<not> 1000 \<le> ms - lastTickMs st \<Longrightarrow> elapsedSeconds ms st = 0"
  by (simp add: elapsedSeconds_def word_le_nat_alt)

lemma catchUp_bodyN: "catchUp L ms st = bodyN (elapsedSeconds ms st) L st"
proof (induction L ms st rule: catchUp.induct)
  case (1 L ms st)
  show ?case
  proof (cases "1000 \<le> ms - lastTickMs st")
    case False
    then show ?thesis by (simp add: catchUp.simps [of L ms st] elapsedSeconds_0)
  next
    case True
    show ?thesis
    proof (cases "loopBody L st")
      case None
      obtain k where "elapsedSeconds ms st = Suc k"
        using elapsed_step(2) [OF True] by (cases "elapsedSeconds ms st")
          (simp_all add: elapsedSeconds_def)
      with None True show ?thesis by (simp add: catchUp.simps [of L ms st])
    next
      case (Some st1)
      have "elapsedSeconds ms st = Suc (elapsedSeconds ms st1)"
        using True loopBody_Some(1) [OF Some] by (rule elapsedSeconds_Suc)
      with "1.IH" [OF True Some] Some True show ?thesis
        by (simp add: catchUp.simps [of L ms st])
    qed
  qed
qed

lemma catchUp_residue: "catchUp L ms st = Some st' \<Longrightarrow> ms - lastTickMs st' < 1000"
proof (induction L ms st rule: catchUp.induct)
  case (1 L ms st)
  show ?case
  proof (cases "1000 \<le> ms - lastTickMs st")
    case False
    with "1.prems" show ?thesis by (simp add: catchUp.simps [of L ms st])
  next
    case True
    with "1.prems" obtain st1 where st1: "loopBody L st = Some st1" "catchUp L ms st1 = Some st'"
      by (auto simp: catchUp.simps [of L ms st] split: option.splits)
    with "1.IH" [OF True st1(1)] show ?thesis by simp
  qed
qed

lemma bodyN_Some:
  "bodyN n L st = Some st' \<Longrightarrow>
   lastTickMs st' = lastTickMs st + of_nat (n * 1000) \<and> tickN n (ct st) = Some (ct st')"
proof (induction n arbitrary: st)
  case 0
  then show ?case by simp
next
  case (Suc n)
  from Suc.prems obtain st1 where st1: "loopBody L st = Some st1" "bodyN n L st1 = Some st'"
    by (auto split: option.splits)
  from Suc.IH [OF st1(2)] loopBody_Some(1,2) [OF st1(1)] show ?case
    by (simp add: algebra_simps)
qed

lemma tick_midnight:
  assumes v: "validTime t" and e: "secOfDay t = 86399"
  shows "tickOneSecond t =
     (if hasDate t \<and> year t \<ge> 1970
      then (case daysInMonth (year t) (month t) of
              None \<Rightarrow> None
            | Some ndays \<Rightarrow>
                Some (if s16 (day t + 1) > ndays
                      then (if s16 (month t + 1) > 12
                            then t\<lparr>second := 0, minute := 0, hour := 0, day := 1, month := 1,
                                   year := s16 (year t + 1)\<rparr>
                            else t\<lparr>second := 0, minute := 0, hour := 0, day := 1,
                                   month := s16 (month t + 1)\<rparr>)
                      else t\<lparr>second := 0, minute := 0, hour := 0, day := s16 (day t + 1)\<rparr>))
      else Some (t\<lparr>second := 0, minute := 0, hour := 0\<rparr>))"
proof -
  from end_of_day [OF v e] have f: "hour t = 23" "minute t = 59" "second t = 59" by simp_all
  show ?thesis
    by (simp add: tickOneSecond_def Let_def f s16_def split: option.splits)
qed

lemma tick_nodate:
  assumes v: "validTime t" and n: "\<not> hasDate t"
  shows "\<exists>t'. tickOneSecond t = Some t' \<and> validTime t' \<and> \<not> hasDate t'"
proof (cases "secOfDay t < 86399")
  case True
  from tick_within_day [OF v True] n show ?thesis by (auto simp: sameDate_def)
next
  case False
  with v have "secOfDay t = 86399" unfolding validTime_def secOfDay_def by arith
  from tick_midnight [OF v this] n show ?thesis by (simp add: validTime_def)
qed

lemma tick_dated:
  assumes v: "validTime t" and h: "hasDate t" and d: "dateInRange t" and y: "year t < 32767"
  shows "\<exists>t'. tickOneSecond t = Some t' \<and> validTime t' \<and> hasDate t' \<and> dateInRange t'
           \<and> monthSeconds t' \<le> monthSeconds t + 1"
proof (cases "secOfDay t < 86399")
  case True
  from tick_within_day [OF v True] h d show ?thesis
    by (auto simp: sameDate_def dateInRange_def monthSeconds_def)
next
  case False
  with v have e: "secOfDay t = 86399" unfolding validTime_def secOfDay_def by arith
  from d have r: "1970 \<le> year t" "1 \<le> month t" "month t \<le> 12" "1 \<le> day t" "day t \<le> 31"
    by (simp_all add: dateInRange_def)
  obtain ndays where ndays: "daysInMonth (year t) (month t) = Some ndays" "28 \<le> ndays" "ndays \<le> 31"
    using daysInMonth_bounds [OF r(2,3)] by blast
  have s: "s16 (day t + 1) = day t + 1" "s16 (month t + 1) = month t + 1"
    "s16 (year t + 1) = year t + 1" using r y by (simp_all add: s16_id)
  have k: "tickOneSecond t =
      Some (if day t + 1 > ndays
            then (if month t + 1 > 12
                  then t\<lparr>second := 0, minute := 0, hour := 0, day := 1, month := 1,
                         year := year t + 1\<rparr>
                  else t\<lparr>second := 0, minute := 0, hour := 0, day := 1, month := month t + 1\<rparr>)
            else t\<lparr>second := 0, minute := 0, hour := 0, day := day t + 1\<rparr>)"
    using tick_midnight [OF v e] h r ndays s by simp
  consider (day) "\<not> day t + 1 > ndays" | (month) "day t + 1 > ndays" "\<not> month t + 1 > 12"
    | (year) "day t + 1 > ndays" "month t + 1 > 12" by blast
  then show ?thesis
  proof cases
    case day
    with k h r ndays e show ?thesis
      by (simp add: validTime_def dateInRange_def monthSeconds_def secOfDay_def)
  next
    case month
    with k h r ndays e show ?thesis
      by (simp add: validTime_def dateInRange_def monthSeconds_def secOfDay_def)
  next
    case year
    with k h r ndays e show ?thesis
      by (simp add: validTime_def dateInRange_def monthSeconds_def secOfDay_def)
  qed
qed

lemma weekday_table: "i < 12 \<Longrightarrow> 0 \<le> [0, 3, 2, 5, 0, 3, 5, 1, 4, 6, 2, 4 :: int] ! i
    \<and> [0, 3, 2, 5, 0, 3, 5, 1, 4, 6, 2, 4 :: int] ! i \<le> 6"
proof -
  assume "i < 12"
  then have "i = 0 \<or> i = 1 \<or> i = 2 \<or> i = 3 \<or> i = 4 \<or> i = 5 \<or> i = 6 \<or> i = 7 \<or> i = 8
      \<or> i = 9 \<or> i = 10 \<or> i = 11" by arith
  then show ?thesis by (elim disjE) simp_all
qed

lemma c_mod_range: "0 \<le> a \<Longrightarrow> 0 \<le> c_mod a 7 \<and> c_mod a 7 < 7"
proof -
  assume a: "0 \<le> a"
  then have "c_div a 7 = a div 7" by (intro c_div_nonneg) simp_all
  then have "c_mod a 7 = a mod 7" by (simp add: c_mod_def minus_mult_div_eq_mod)
  then show ?thesis by simp
qed

lemma weekdayIndex_range:
  assumes "1969 \<le> y0" "y0 \<le> 26000" "1 \<le> m" "m \<le> 12" "1 \<le> d" "d \<le> 31"
  shows "\<exists>wd. weekdayIndex y0 m d = Some wd \<and> 0 \<le> wd \<and> wd < 7"
proof -
  define y where "y = (if m < 3 then s16 (y0 - 1) else y0)"
  have yr: "1968 \<le> y" "y \<le> 26000" using assms by (simp_all add: y_def s16_id)
  have t: "0 \<le> [0, 3, 2, 5, 0, 3, 5, 1, 4, 6, 2, 4 :: int] ! nat (m - 1)
      \<and> [0, 3, 2, 5, 0, 3, 5, 1, 4, 6, 2, 4 :: int] ! nat (m - 1) \<le> 6"
    using assms by (intro weekday_table) simp
  have c: "c_div y 4 = y div 4" "c_div y 100 = y div 100" "c_div y 400 = y div 400"
    using yr by (simp_all add: c_div_nonneg)
  let ?s = "y + c_div y 4 - c_div y 100 + c_div y 400
            + [0, 3, 2, 5, 0, 3, 5, 1, 4, 6, 2, 4] ! nat (m - 1) + d"
  have q: "y div 4 \<le> 6500" "y div 400 \<le> 65" "0 \<le> y div 100" "y div 100 \<le> y div 4"
    "0 \<le> y div 400" using yr by (simp_all add: zdiv_mono2 div_le_mono pos_imp_zdiv_nonneg_iff) 
  define tv where "tv = [0, 3, 2, 5, 0, 3, 5, 1, 4, 6, 2, 4 :: int] ! nat (m - 1)"
  have b: "0 \<le> ?s" "?s \<le> 32767"
    unfolding c tv_def [symmetric] using yr t [folded tv_def] q assms by linarith+
  then have "s16 ?s = ?s" by (simp add: s16_id)
  then have "0 \<le> c_mod (s16 ?s) 7 \<and> c_mod (s16 ?s) 7 < 7" using b c_mod_range by simp
  then show ?thesis using assms by (simp add: weekdayIndex_def Let_def y_def)
qed

lemma weekdayText_returns:
  assumes "hasDate c \<longrightarrow> dateInRange c \<and> year c \<le> 26000"
  shows "\<exists>x. weekdayText c = Some x"
proof (cases "hasDate c")
  case False
  then show ?thesis by (simp add: weekdayText_def)
next
  case True
  with assms have r: "1970 \<le> year c" "year c \<le> 26000" "1 \<le> month c" "month c \<le> 12"
    "1 \<le> day c" "day c \<le> 31" by (simp_all add: dateInRange_def)
  then obtain wd where "weekdayIndex (year c) (month c) (day c) = Some wd" "0 \<le> wd" "wd < 7"
    using weekdayIndex_range [of "year c" "month c" "day c"] by auto
  then show ?thesis by (simp add: weekdayText_def)
qed

lemma drawDateLine_returns: "weekdayText c = Some x \<Longrightarrow> \<exists>r'. drawDateLine L c r = Some r'"
  by (simp add: drawDateLine_def Let_def)


lemma secOfDay_nonneg: "validTime t \<Longrightarrow> 0 \<le> secOfDay t"
  by (simp add: validTime_def secOfDay_def)

lemma runOK_year:
  assumes "runOK b c" "hasDate c" "0 \<le> b"
  shows "year c < 26000"
proof -
  from assms have d: "1 \<le> month c" "1 \<le> day c" "monthSeconds c \<le> 26000 * 29030400"
    by (simp_all add: runOK_def dateInRange_def)
  from assms have "0 \<le> secOfDay c" by (simp add: runOK_def secOfDay_nonneg)
  with d have "year c * 29030400 + 2419200 \<le> 26000 * 29030400"
    unfolding monthSeconds_def by simp
  then show ?thesis by simp
qed

lemma loopBody_returns:
  assumes ok: "runOK (1 + b) (ct st)" and b: "0 \<le> b"
  shows "\<exists>st1. loopBody L st = Some st1 \<and> runOK b (ct st1)"
proof -
  from ok have v: "validTime (ct st)" by (simp add: runOK_def)
  have "\<exists>c. tickOneSecond (ct st) = Some c \<and> runOK b c"
  proof (cases "hasDate (ct st)")
    case False
    from tick_nodate [OF v False] show ?thesis by (auto simp: runOK_def)
  next
    case True
    with ok have d: "dateInRange (ct st)" by (simp add: runOK_def)
    have "year (ct st) < 26000" using ok True b by (intro runOK_year [of "1 + b"]) simp_all
    then have "year (ct st) < 32767" by simp
    from tick_dated [OF v True d this] ok True show ?thesis by (auto simp: runOK_def)
  qed
  then obtain c where c: "tickOneSecond (ct st) = Some c" "runOK b c" by blast
  have "hasDate c \<longrightarrow> dateInRange c \<and> year c \<le> 26000"
    using c(2) b runOK_year [of b c] by (auto simp: runOK_def)
  then obtain x where "weekdayText c = Some x" using weekdayText_returns by blast
  then have dl: "drawDateLine L c r \<noteq> None" for r
    using drawDateLine_returns [of c x L r] by auto
  show ?thesis using c by (auto simp: loopBody_def Let_def dl split: option.splits)
qed

lemma bodyN_returns:
  "runOK (int n) (ct st) \<Longrightarrow> \<exists>st'. bodyN n L st = Some st'"
proof (induction n arbitrary: st)
  case 0
  then show ?case by simp
next
  case (Suc n)
  then have "runOK (1 + int n) (ct st)" by (simp add: add.commute)
  then obtain st1 where st1: "loopBody L st = Some st1" "runOK (int n) (ct st1)"
    using loopBody_returns [of "int n" st L] by auto
  from Suc.IH [OF st1(2)] st1(1) show ?case by simp
qed

lemma elapsedSeconds_bound: "elapsedSeconds ms st < 4294968"
proof -
  have "unat (ms - lastTickMs st) < 2 ^ 32"
    using unsigned_less [of "ms - lastTickMs st", where 'a = nat] by simp
  then show ?thesis by (simp add: elapsedSeconds_def)
qed

lemma clockOK_runOK:
  assumes "clockOK c" "n < 4294968"
  shows "runOK (int n) c"
proof -
  from assms have v: "validTime c" by (simp add: clockOK_def)
  then have s: "secOfDay c \<le> 86399" unfolding validTime_def secOfDay_def by arith
  show ?thesis
  proof (cases "hasDate c")
    case False
    with v show ?thesis by (simp add: runOK_def)
  next
    case True
    with assms have d: "dateInRange c" "year c \<le> 9999" by (simp_all add: clockOK_def)
    then have "month c \<le> 12" "day c \<le> 31" by (simp_all add: dateInRange_def)
    with d s have "monthSeconds c \<le> (9999 * 12 + 12) * 2419200 + 30 * 86400 + 86399"
      unfolding monthSeconds_def by simp
    with assms(2) v d show ?thesis by (simp add: runOK_def)
  qed
qed

lemma advanceClock_returns: "clockOK (ct st) \<Longrightarrow> \<exists>st'. advanceClock L ms st = Some st'"
  using bodyN_returns [OF clockOK_runOK [OF _ elapsedSeconds_bound], of st ms st L]
  by (simp add: advanceClock_def catchUp_bodyN)

subsection \<open>What each pass of the loop body paints\<close>

lemmas seg_defs = SEG_A_def SEG_B_def SEG_C_def SEG_D_def SEG_E_def SEG_F_def SEG_G_def

lemma drawDigitSegments_draw:
  "drawDigitSegments L x0 y0 m False
     = map (segRect L x0 y0) (filter (segIn m) [SEG_A, SEG_G, SEG_D, SEG_B, SEG_C, SEG_F, SEG_E])"
  by (simp add: drawDigitSegments_def segRect_def Let_def drawHSeg_def drawVSeg_def seg_defs)

lemma segIn_0: "\<not> segIn 0 s"
  by (simp add: segIn_def)

lemma hardRefreshDigit_tft:
  "tft (hardRefreshDigit L di m r) = tft r @ cellPaint L di m"
  by (simp add: hardRefreshDigit_def Let_def cellPaint_def drawDigitSegments_draw segIn_0)

lemma timeCell_tft:
  assumes "i < 8"
  shows "tft (timeCell L cur r i)
     = tft r @ (if i = 2 \<or> i = 5 \<or> cur ! i = prevTimeStr r ! i then []
                else cellPaint L (if i < 2 then i else if i < 5 then i - 1 else i - 2)
                       (glyphMask (cur ! i)))"
proof -
  have "i = 0 \<or> i = 1 \<or> i = 2 \<or> i = 3 \<or> i = 4 \<or> i = 5 \<or> i = 6 \<or> i = 7"
    using assms by arith
  then show ?thesis
    by (elim disjE)
      (simp_all add: timeCell_def Let_def hardRefreshDigit_tft glyphMask_def
        HARD_REFRESH_MINUTES_def HARD_REFRESH_SECONDS_def)
qed

lemma upt8: "[0..<8] = [0, 1, 2, 3, 4, 5, 6, 7]"
  by (simp add: upt_rec)

lemma drawTimeDigits_tft:
  "tft (drawTimeDigits L c r) = tft r @ digitPaint L (prevTimeStr r) (timeText c)"
  by (simp add: drawTimeDigits_def Let_def upt8 timeCell_tft digitPaint_def)

lemma drawSecondsBarFill_tft:
  "tft (drawSecondsBarFill s r)
     = tft r @ barPaint (barY r) (prevFillW r) (fillWidth (barW r) s)"
  by (simp add: drawSecondsBarFill_def Let_def barPaint_def)

lemma drawDateLine_tft:
  "drawDateLine L c r = Some r' \<Longrightarrow> \<exists>dc. tft r' = tft r @ dc"
  by (auto simp: drawDateLine_def Let_def split: if_splits option.splits)


lemma loopBody_tft:
  assumes "loopBody L st = Some st1"
  shows "\<exists>dc. tft (scr st1)
           = tft (scr st) @ digitPaint L (prevTimeStr (scr st)) (timeText (ct st1))
             @ barPaint (barY (scr st)) (prevFillW (scr st))
                 (fillWidth (barW (scr st)) (word_of_int (second (ct st1))))
             @ dc
         \<and> (\<not> isMidnight (ct st1) \<longrightarrow> dc = [])"
proof -
  from assms obtain c where c: "tickOneSecond (ct st) = Some c"
    by (auto simp: loopBody_def Let_def split: option.splits)
  let ?r = "drawSecondsBarFill (word_of_int (second c)) (drawTimeDigits L c (scr st))"
  have t: "tft ?r = tft (scr st) @ digitPaint L (prevTimeStr (scr st)) (timeText c)
      @ barPaint (barY (scr st)) (prevFillW (scr st))
          (fillWidth (barW (scr st)) (word_of_int (second c)))"
    by (simp add: drawSecondsBarFill_tft drawTimeDigits_tft)
  from assms c consider
      (plain) "\<not> isMidnight c"
        "st1 = st\<lparr>lastTickMs := lastTickMs st + 1000, ct := c, scr := ?r\<rparr>"
    | (date) rd where "isMidnight c" "drawDateLine L c ?r = Some rd"
        "st1 = st\<lparr>lastTickMs := lastTickMs st + 1000, ct := c, scr := rd\<rparr>"
    by (cases "isMidnight c")
      (auto simp: loopBody_def Let_def isMidnight_def split: option.splits if_splits)
  then show ?thesis
  proof cases
    case plain
    then show ?thesis using t by simp
  next
    case date
    from drawDateLine_tft [OF date(2)] obtain dc where "tft rd = tft ?r @ dc" by blast
    then show ?thesis using date(1,3) t
      by (intro exI [of _ dc]) simp
  qed
qed

subsection \<open>A clock that is on the display\<close>

lemma dec_small: "n < 10 \<Longrightarrow> dec n = [digitChar n]"
  by (simp add: dec.simps [of n])

lemma fmt_0d_two:
  assumes "0 \<le> x" "x < 100"
  shows "fmt_0d 2 x = [digitChar (nat x div 10), digitChar (nat x mod 10)]"
proof (cases "x < 10")
  case True
  with assms have "dec (nat \<bar>x\<bar>) = [digitChar (nat x)]" by (simp add: dec_small)
  moreover have "digitChar 0 = CHR ''0''" by code_simp
  ultimately show ?thesis using True assms by (simp add: fmt_0d_def)
next
  case False
  with assms have n: "\<not> nat x < 10" "nat x div 10 < 10" by simp_all
  have "dec (nat x) = dec (nat x div 10) @ [digitChar (nat x mod 10)]"
    using n(1) by (simp add: dec.simps [of "nat x"])
  with n(2) assms show ?thesis by (simp add: fmt_0d_def dec_small)
qed

lemma timeText_units:
  assumes "validTime t"
  shows "timeText t ! 7 = digitChar (nat (second t) mod 10)"
proof -
  from assms have "fmt_0d 2 (hour t) = [digitChar (nat (hour t) div 10), digitChar (nat (hour t) mod 10)]"
    "fmt_0d 2 (minute t) = [digitChar (nat (minute t) div 10), digitChar (nat (minute t) mod 10)]"
    "fmt_0d 2 (second t) = [digitChar (nat (second t) div 10), digitChar (nat (second t) mod 10)]"
    by (simp_all add: validTime_def fmt_0d_two)
  then show ?thesis by (simp add: timeText_def snprintf_def)
qed

lemma digitChar_inj: "a < 10 \<Longrightarrow> b < 10 \<Longrightarrow> digitChar a = digitChar b \<Longrightarrow> a = b"
proof -
  assume a: "a < 10" and b: "b < 10" and e: "digitChar a = digitChar b"
  have c: "of_char (digitChar a) = 48 + a" "of_char (digitChar b) = 48 + b"
    using a b by (simp_all add: digitChar_def)
  from e have "(of_char (digitChar a) :: nat) = of_char (digitChar b)" by (rule arg_cong)
  then show "a = b" unfolding c by simp
qed

lemma units_change:
  assumes v: "validTime t" and k: "tickOneSecond t = Some t'"
  shows "timeText t' ! 7 \<noteq> timeText t ! 7" and "validTime t'"
proof -
  have v': "validTime t'"
  proof (cases "secOfDay t < 86399")
    case True
    from tick_within_day [OF v True] k show ?thesis by auto
  next
    case False
    with v have "secOfDay t = 86399" unfolding validTime_def secOfDay_def by arith
    from tick_midnight [OF v this] k show ?thesis
      by (auto simp: validTime_def split: if_splits option.splits)
  qed
  then show "validTime t'" .
  from v have r: "0 \<le> second t" "second t < 60" by (simp_all add: validTime_def)
  have m: "(n + 1) mod 10 \<noteq> n mod 10" for n :: nat by presburger
  have "nat (second t') mod 10 \<noteq> nat (second t) mod 10"
  proof -
    from tick_second_cases [OF v k] show ?thesis
    proof
      assume "second t' = second t + 1 \<and> second t' \<le> 59"
      then have "nat (second t') = nat (second t) + 1" using r by simp
      then show ?thesis using m [of "nat (second t)"] by simp
    next
      assume "second t = 59 \<and> second t' = 0"
      then show ?thesis by simp
    qed
  qed
  then have "digitChar (nat (second t') mod 10) \<noteq> digitChar (nat (second t) mod 10)"
    using digitChar_inj [of "nat (second t') mod 10" "nat (second t) mod 10"] by auto
  then show "timeText t' ! 7 \<noteq> timeText t ! 7"
    by (simp add: timeText_units v v')
qed

lemma digitPaint_units:
  assumes "cur ! 7 \<noteq> shown ! 7"
  shows "\<exists>xs. digitPaint L shown cur = xs @ cellPaint L 5 (glyphMask (cur ! 7))"
  using assms by (simp add: digitPaint_def)

lemma bar_changes:
  assumes v: "validTime t" and k: "tickOneSecond t = Some t'"
    and bw: "59 \<le> bw" "bw \<le> 32767"
  shows "\<exists>call. barPaint y (fillWidth bw (word_of_int (second t)))
                  (fillWidth bw (word_of_int (second t'))) = [call] \<and> paints call"
proof -
  from v have r: "0 \<le> second t" "second t < 60" by (simp_all add: validTime_def)
  have b0: "0 \<le> bw" using bw by simp
  have old: "fillWidth bw (word_of_int (second t)) = (second t * bw) div 59"
    using r by (intro fillWidth_eq [OF b0 bw(2)]) simp_all
  have nn: "0 \<le> (second t * bw) div 59" using r b0 by (simp add: pos_imp_zdiv_nonneg_iff)
  from tick_second_cases [OF v k] show ?thesis
  proof
    assume n: "second t' = second t + 1 \<and> second t' \<le> 59"
    then have r': "0 \<le> second t'" "second t' \<le> 59" using r by simp_all
    have new: "fillWidth bw (word_of_int (second t')) = (second t' * bw) div 59"
      using r' by (intro fillWidth_eq [OF b0 bw(2)])
    have "second t' * bw = second t * bw + bw" using n by (simp add: algebra_simps)
    then have "(second t * bw + 59) div 59 \<le> (second t' * bw) div 59"
      using bw by (intro zdiv_mono1) simp_all
    then have "(second t * bw) div 59 < (second t' * bw) div 59" by simp
    then show ?thesis unfolding old new using nn by (simp add: barPaint_def)
  next
    assume z: "second t = 59 \<and> second t' = 0"
    have new: "fillWidth bw (word_of_int (second t')) = 0"
      using z fillWidth_eq [OF b0 bw(2), of 0] by simp
    have "fillWidth bw (word_of_int (second t)) = bw"
      using z fillWidth_eq [OF b0 bw(2), of 59] by simp
    then show ?thesis unfolding new using bw by (simp add: barPaint_def)
  qed
qed


lemma loopBody_bar:
  assumes "loopBody L st = Some st1"
  shows "barW (scr st1) = barW (scr st)" and "barY (scr st1) = barY (scr st)"
proof -
  from assms obtain c where c: "tickOneSecond (ct st) = Some c"
    by (auto simp: loopBody_def Let_def split: option.splits)
  let ?r = "drawSecondsBarFill (word_of_int (second c)) (drawTimeDigits L c (scr st))"
  from assms c consider (plain) "scr st1 = ?r"
    | (date) rd where "drawDateLine L c ?r = Some rd" "scr st1 = rd"
    by (auto simp: loopBody_def Let_def split: option.splits if_splits)
  then have "barW (scr st1) = barW (scr st) \<and> barY (scr st1) = barY (scr st)"
  proof cases
    case plain
    then show ?thesis by simp
  next
    case date
    then show ?thesis using drawDateLine_fields [OF date(1)] by simp
  qed
  then show "barW (scr st1) = barW (scr st)" and "barY (scr st1) = barY (scr st)" by simp_all
qed

text \<open>
  C5: when the clock is set, the catch-up loop executes its body exactly
  \<open>n = ((ms - lastTickMs) mod 2^32) div 1000\<close> times, one after the other.  Each body adds
  1000 to \<open>lastTickMs\<close> and advances the clock by one \<open>tickOneSecond\<close>; it then appends to
  the display calls the repaint of every digit cell whose character changed and the
  strip of the seconds bar between the old and the new fill width (and date-line calls
  only at midnight), and leaves the shadow state holding the digits and bar width of
  that second.  When the shadow state shows the clock before the body, the body repaints
  at least the units-of-seconds cell, and on a bar of 59 to 32767 pixels it paints
  exactly one bar strip; both conditions hold again after the body.  If the loop
  returns, \<open>lastTickMs\<close> has grown by \<open>n * 1000\<close> (in 32-bit arithmetic), the clock is the
  \<open>n\<close>-fold tick of the old one and less than a second remains; and it does return for
  every clock with a valid time of day and, when dated, date fields in the parser's
  ranges.
\<close>

theorem C5_catch_up:
  assumes "isSet (ct st)"
  shows "advanceClock L ms st = bodyN (elapsedSeconds ms st) L st
       \<and> (advanceClock L ms st = Some st' \<longrightarrow>
            lastTickMs st' = lastTickMs st + of_nat (elapsedSeconds ms st * 1000)
            \<and> tickN (elapsedSeconds ms st) (ct st) = Some (ct st')
            \<and> ms - lastTickMs st' < 1000)
       \<and> (loopBody L st = Some st1 \<longrightarrow>
            lastTickMs st1 = lastTickMs st + 1000
            \<and> tickOneSecond (ct st) = Some (ct st1)
            \<and> prevTimeStr (scr st1) = strncpy (timeText (ct st1)) 9
            \<and> prevFillW (scr st1) = fillWidth (barW (scr st)) (word_of_int (second (ct st1)))
            \<and> barW (scr st1) = barW (scr st) \<and> barY (scr st1) = barY (scr st)
            \<and> (\<exists>dc. tft (scr st1)
                   = tft (scr st) @ digitPaint L (prevTimeStr (scr st)) (timeText (ct st1))
                     @ barPaint (barY (scr st)) (prevFillW (scr st))
                         (fillWidth (barW (scr st)) (word_of_int (second (ct st1))))
                     @ dc
                 \<and> (\<not> isMidnight (ct st1) \<longrightarrow> dc = [])))
       \<and> (loopBody L st = Some st1 \<and> validTime (ct st)
            \<and> prevTimeStr (scr st) = strncpy (timeText (ct st)) 9 \<longrightarrow>
            validTime (ct st1)
            \<and> (\<exists>xs. digitPaint L (prevTimeStr (scr st)) (timeText (ct st1))
                   = xs @ cellPaint L 5 (glyphMask (timeText (ct st1) ! 7))))
       \<and> (loopBody L st = Some st1 \<and> validTime (ct st)
            \<and> prevFillW (scr st) = fillWidth (barW (scr st)) (word_of_int (second (ct st)))
            \<and> 59 \<le> barW (scr st) \<and> barW (scr st) \<le> 32767 \<longrightarrow>
            (\<exists>call. barPaint (barY (scr st)) (prevFillW (scr st))
                      (fillWidth (barW (scr st)) (word_of_int (second (ct st1)))) = [call]
                  \<and> paints call))
       \<and> (clockOK (ct st) \<longrightarrow> (\<exists>st2. advanceClock L ms st = Some st2))"
proof -
  have a: "advanceClock L ms st = bodyN (elapsedSeconds ms st) L st"
    using assms by (simp add: advanceClock_def catchUp_bodyN)
  have b: "advanceClock L ms st = Some st' \<longrightarrow>
            lastTickMs st' = lastTickMs st + of_nat (elapsedSeconds ms st * 1000)
            \<and> tickN (elapsedSeconds ms st) (ct st) = Some (ct st')
            \<and> ms - lastTickMs st' < 1000"
  proof
    assume s: "advanceClock L ms st = Some st'"
    then have "catchUp L ms st = Some st'" using assms by (simp add: advanceClock_def)
    then have r: "ms - lastTickMs st' < 1000" by (rule catchUp_residue)
    from s a have "bodyN (elapsedSeconds ms st) L st = Some st'" by simp
    from bodyN_Some [OF this] r
    show "lastTickMs st' = lastTickMs st + of_nat (elapsedSeconds ms st * 1000)
            \<and> tickN (elapsedSeconds ms st) (ct st) = Some (ct st')
            \<and> ms - lastTickMs st' < 1000" by simp
  qed
  have c: "clockOK (ct st) \<longrightarrow> (\<exists>st2. advanceClock L ms st = Some st2)"
    using advanceClock_returns by blast
  have d: "loopBody L st = Some st1 \<longrightarrow>
            lastTickMs st1 = lastTickMs st + 1000
            \<and> tickOneSecond (ct st) = Some (ct st1)
            \<and> prevTimeStr (scr st1) = strncpy (timeText (ct st1)) 9
            \<and> prevFillW (scr st1) = fillWidth (barW (scr st)) (word_of_int (second (ct st1)))
            \<and> barW (scr st1) = barW (scr st) \<and> barY (scr st1) = barY (scr st)
            \<and> (\<exists>dc. tft (scr st1)
                   = tft (scr st) @ digitPaint L (prevTimeStr (scr st)) (timeText (ct st1))
                     @ barPaint (barY (scr st)) (prevFillW (scr st))
                         (fillWidth (barW (scr st)) (word_of_int (second (ct st1))))
                     @ dc
                 \<and> (\<not> isMidnight (ct st1) \<longrightarrow> dc = []))"
    using loopBody_Some(1-4) [of L st st1] loopBody_bar [of L st st1] loopBody_tft [of L st st1]
    by blast
  have e: "loopBody L st = Some st1 \<and> validTime (ct st)
            \<and> prevTimeStr (scr st) = strncpy (timeText (ct st)) 9 \<longrightarrow>
            validTime (ct st1)
            \<and> (\<exists>xs. digitPaint L (prevTimeStr (scr st)) (timeText (ct st1))
                   = xs @ cellPaint L 5 (glyphMask (timeText (ct st1) ! 7)))"
  proof (intro impI, elim conjE)
    assume l: "loopBody L st = Some st1" and v: "validTime (ct st)"
      and p: "prevTimeStr (scr st) = strncpy (timeText (ct st)) 9"
    note k = loopBody_Some(2) [OF l]
    have "strncpy (timeText (ct st)) 9 ! 7 = timeText (ct st) ! 7"
      by (intro strncpy_nth) (simp_all add: timeText_length)
    with units_change(1) [OF v k] p
    have "timeText (ct st1) ! 7 \<noteq> prevTimeStr (scr st) ! 7" by simp
    from digitPaint_units [OF this, of L] units_change(2) [OF v k]
    show "validTime (ct st1)
            \<and> (\<exists>xs. digitPaint L (prevTimeStr (scr st)) (timeText (ct st1))
                   = xs @ cellPaint L 5 (glyphMask (timeText (ct st1) ! 7)))" by simp
  qed
  have f: "loopBody L st = Some st1 \<and> validTime (ct st)
            \<and> prevFillW (scr st) = fillWidth (barW (scr st)) (word_of_int (second (ct st)))
            \<and> 59 \<le> barW (scr st) \<and> barW (scr st) \<le> 32767 \<longrightarrow>
            (\<exists>call. barPaint (barY (scr st)) (prevFillW (scr st))
                      (fillWidth (barW (scr st)) (word_of_int (second (ct st1)))) = [call]
                  \<and> paints call)"
  proof (intro impI, elim conjE)
    assume l: "loopBody L st = Some st1" and v: "validTime (ct st)"
      and p: "prevFillW (scr st) = fillWidth (barW (scr st)) (word_of_int (second (ct st)))"
      and w: "59 \<le> barW (scr st)" "barW (scr st) \<le> 32767"
    from bar_changes [OF v loopBody_Some(2) [OF l] w, of "barY (scr st)"] p
    show "\<exists>call. barPaint (barY (scr st)) (prevFillW (scr st))
                      (fillWidth (barW (scr st)) (word_of_int (second (ct st1)))) = [call]
                  \<and> paints call" by simp
  qed
  show ?thesis using a b c d e f by blast
qed


theorem C5_witness:
  "isSet (ct syncedHud) \<and> clockOK (ct syncedHud) \<and> elapsedSeconds 7500 syncedHud = 2
   \<and> advanceClock panel 7500 syncedHud \<noteq> None
   \<and> lastTickMs (the (advanceClock panel 7500 syncedHud)) = 7000
   \<and> ct (the (advanceClock panel 7500 syncedHud)) = feb29_2024_001
   \<and> loopBody panel syncedHud \<noteq> None
   \<and> lastTickMs (the (loopBody panel syncedHud)) = 6000
   \<and> ct (the (loopBody panel syncedHud)) = feb29_2024_001\<lparr>second := 0\<rparr>
   \<and> isSet (ct shownHud) \<and> validTime (ct shownHud)
   \<and> prevTimeStr (scr shownHud) = strncpy (timeText (ct shownHud)) 9
   \<and> prevFillW (scr shownHud) = fillWidth (barW (scr shownHud)) (word_of_int (second (ct shownHud)))
   \<and> 59 \<le> barW (scr shownHud) \<and> barW (scr shownHud) \<le> 32767
   \<and> loopBody panelPlaced shownHud \<noteq> None
   \<and> ct (the (loopBody panelPlaced shownHud)) = t_12_34_56\<lparr>second := 57\<rparr>
   \<and> tft (scr (the (loopBody panelPlaced shownHud)))
       = [OceanBG 259 56 47 71, FillRoundRect 266 56 28 5 2 COL_GLOW,
          FillRoundRect 294 58 5 28 2 COL_GLOW, FillRoundRect 294 91 5 28 2 COL_GLOW,
          FillRect 294 214 5 10 COL_BAR]
   \<and> map_option (\<lambda>s. (tft (scr s), prevTimeStr (scr s), prevFillW (scr s)))
         (loopBody panelPlaced shownHud)
       = Some ([OceanBG 259 56 47 71, FillRoundRect 266 56 28 5 2 COL_GLOW,
                FillRoundRect 294 58 5 28 2 COL_GLOW, FillRoundRect 294 91 5 28 2 COL_GLOW,
                FillRect 294 214 5 10 COL_BAR], ''12:34:57'' @ [NUL], 289)"
proof -
  have run: "map_option (\<lambda>s. (tft (scr s), prevTimeStr (scr s), prevFillW (scr s)))
         (loopBody panelPlaced shownHud)
       = Some ([OceanBG 259 56 47 71, FillRoundRect 266 56 28 5 2 COL_GLOW,
                FillRoundRect 294 58 5 28 2 COL_GLOW, FillRoundRect 294 91 5 28 2 COL_GLOW,
                FillRect 294 214 5 10 COL_BAR], ''12:34:57'' @ [NUL], 289)"
    by code_simp
  have s: "isSet (ct syncedHud)" by (simp add: syncedHud_def feb28_2024_def)
  have ok: "clockOK (ct syncedHud)"
    by (simp add: syncedHud_def feb28_2024_def clockOK_def validTime_def dateInRange_def)
  have e: "elapsedSeconds 7500 syncedHud = 2" by (simp add: elapsedSeconds_def syncedHud_def)
  have t1: "tickOneSecond feb28_2024 = Some (feb29_2024_001\<lparr>second := 0\<rparr>)"
    by (simp add: tick_feb28_2024) (simp add: feb28_2024_def feb29_2024_001_def)
  have t2: "tickOneSecond (feb29_2024_001\<lparr>second := 0\<rparr>) = Some feb29_2024_001"
    by (simp add: tickOneSecond_def Let_def s16_def feb29_2024_001_def)
  have tn: "tickN 2 feb28_2024 = Some feb29_2024_001"
    by (simp add: numeral_2_eq_2 t1 t2)
  have "runOK 1 (ct syncedHud)" using clockOK_runOK [OF ok, of 1] by simp
  then obtain st1 where st1: "loopBody panel syncedHud = Some st1"
    using loopBody_returns [of 0 syncedHud panel] by auto
  from C5_catch_up [OF s, of panel 7500 _ st1] ok
  obtain st2 where st2: "advanceClock panel 7500 syncedHud = Some st2" by blast
  from C5_catch_up [OF s, of panel 7500 st2 st1] st1 st2 e tn t1
  have first: "lastTickMs st2 = 7000 \<and> ct st2 = feb29_2024_001
      \<and> lastTickMs st1 = 6000 \<and> ct st1 = feb29_2024_001\<lparr>second := 0\<rparr>"
    by (simp add: syncedHud_def)
  have s': "isSet (ct shownHud)" by (simp add: shownHud_def t_12_34_56_def)
  have v: "validTime (ct shownHud)" by (simp add: shownHud_def t_12_34_56_def validTime_def)
  have ok': "clockOK (ct shownHud)" using v by (simp add: clockOK_def shownHud_def t_12_34_56_def)
  have p: "prevTimeStr (scr shownHud) = strncpy (timeText (ct shownHud)) 9" by code_simp
  have f: "prevFillW (scr shownHud)
      = fillWidth (barW (scr shownHud)) (word_of_int (second (ct shownHud)))" by code_simp
  have w: "59 \<le> barW (scr shownHud)" "barW (scr shownHud) \<le> 32767"
    by (simp_all add: shownHud_def)
  have k: "tickOneSecond (ct shownHud) = Some (t_12_34_56\<lparr>second := 57\<rparr>)"
    by (simp add: tickOneSecond_def Let_def s16_def shownHud_def t_12_34_56_def)
  have dp: "digitPaint panelPlaced (prevTimeStr (scr shownHud))
      (timeText (t_12_34_56\<lparr>second := 57\<rparr>))
      = [OceanBG 259 56 47 71, FillRoundRect 266 56 28 5 2 COL_GLOW,
         FillRoundRect 294 58 5 28 2 COL_GLOW, FillRoundRect 294 91 5 28 2 COL_GLOW]"
    by code_simp
  have bp: "barPaint (barY (scr shownHud)) (prevFillW (scr shownHud))
      (fillWidth (barW (scr shownHud)) (word_of_int (second (t_12_34_56\<lparr>second := 57\<rparr>))))
      = [FillRect 294 214 5 10 COL_BAR]"
    by code_simp
  have nm: "\<not> isMidnight (t_12_34_56\<lparr>second := 57\<rparr>)"
    by (simp add: isMidnight_def t_12_34_56_def)
  have e0: "tft (scr shownHud) = []" by (simp add: shownHud_def)
  have "runOK 1 (ct shownHud)" using clockOK_runOK [OF ok', of 1] by simp
  then obtain sw where sw: "loopBody panelPlaced shownHud = Some sw"
    using loopBody_returns [of 0 shownHud panelPlaced] by auto
  from C5_catch_up [OF s', of panelPlaced 7500 _ sw] sw k
  have c: "ct sw = t_12_34_56\<lparr>second := 57\<rparr>" by simp
  from C5_catch_up [OF s', of panelPlaced 7500 _ sw] sw
  obtain dc where dc: "tft (scr sw)
      = tft (scr shownHud) @ digitPaint panelPlaced (prevTimeStr (scr shownHud)) (timeText (ct sw))
        @ barPaint (barY (scr shownHud)) (prevFillW (scr shownHud))
            (fillWidth (barW (scr shownHud)) (word_of_int (second (ct sw))))
        @ dc" "\<not> isMidnight (ct sw) \<longrightarrow> dc = []"
    by blast
  have second: "tft (scr sw)
       = [OceanBG 259 56 47 71, FillRoundRect 266 56 28 5 2 COL_GLOW,
          FillRoundRect 294 58 5 28 2 COL_GLOW, FillRoundRect 294 91 5 28 2 COL_GLOW,
          FillRect 294 214 5 10 COL_BAR]"
    using dc nm unfolding c dp bp e0 by simp
  show ?thesis using s ok e st1 st2 first s' v p f w sw c second run by simp
qed

section \<open>Properties of the environment line\<close>

lemma updateEnv_valid:
  assumes gate: "\<not> ms - lastEnvRead e < ENV_INTERVAL"
    and last: "lastT e = Some lt" "lastH e = Some lh"
    and line: "envLine t h = Some line"
  shows "updateEnv L ms (Some h) (Some t) (e, r) =
     (if \<bar>t - lt\<bar> \<ge> 2 / 10 \<or> \<bar>h - lh\<bar> \<ge> 1
         \<or> strncmp_differs line (cstr (lastEnvStr e)) ENV_LINE_LEN
      then Some (e\<lparr>lastEnvRead := ms, lastEnvStr := storeEnvStr line, lastT := Some t,
                   lastH := Some h\<rparr>, drawEnvLine L line r)
      else Some (e\<lparr>lastEnvRead := ms\<rparr>, r))"
  using assms by (simp add: updateEnv_def Let_def)

lemma drawEnvLine_calls:
  "tft (drawEnvLine L s r) = tft r @ [SetTextSize 2, SetTextColor COL_TEXT (ENV_BG L),
     SetCursor 6 26,
     Print (take ENV_LINE_LEN s @ replicate (ENV_LINE_LEN - min (length s) ENV_LINE_LEN) CHR '' '')]"
  by (simp add: drawEnvLine_def Let_def)

lemma first_reading:
  "updateEnv panel 2000 (Some 50) (Some 24) (env0, render0)
     = Some (envShown, drawEnvLine panel ''TEMP 24.0 C   HUM  50 %'' render0)"
  by code_simp

text \<open>
  C8 (as stated): a valid reading within 0.2 degrees and 1.0 percent of the last rendered
  values triggers no redraw.  This fails: the line is also redrawn when its composed
  text differs from the last rendered text.  With 24.0 degrees and 50 percent rendered,
  the reading 24.125 degrees (a value that single precision represents exactly) is
  within both thresholds, composes \<open>24.1\<close> and is redrawn.
\<close>

theorem C8_counterexample:
  "\<bar>193 / 8 - 24\<bar> < (2 / 10 :: rat) \<and> \<bar>50 - 50\<bar> < (1 :: rat)
   \<and> lastT envShown = Some 24 \<and> lastH envShown = Some 50
   \<and> updateEnv panel 4000 (Some 50) (Some (193 / 8))
        (envShown, drawEnvLine panel ''TEMP 24.0 C   HUM  50 %'' render0)
      = Some (envShown\<lparr>lastEnvRead := 4000,
                        lastEnvStr := storeEnvStr ''TEMP 24.1 C   HUM  50 %'',
                        lastT := Some (193 / 8), lastH := Some 50\<rparr>,
              drawEnvLine panel ''TEMP 24.1 C   HUM  50 %''
                (drawEnvLine panel ''TEMP 24.0 C   HUM  50 %'' render0))"
  by code_simp

text \<open>
  C8 (amended): in a state where valid values were rendered last and the cached text is
  the line composed from them, two consecutive valid readings that \<open>updateEnv\<close>
  processes (each at least 2000 ms after the previous one), each within 0.2 degrees and
  1.0 percent of the last rendered values and composing the text last rendered, trigger
  no redraw and leave the rendered values and text as they are; a following reading
  that crosses either threshold triggers exactly one call of \<open>drawEnvLine\<close>, which
  prints the new line once, and becomes the last rendered value.
\<close>

theorem C8_env_hysteresis:
  assumes last: "lastT e = Some lt" "lastH e = Some lh"
    and cache: "envLine lt lh = Some l0" "lastEnvStr e = storeEnvStr l0"
    and gates: "\<not> ms1 - lastEnvRead e < ENV_INTERVAL" "\<not> ms2 - ms1 < ENV_INTERVAL"
      "\<not> ms3 - ms2 < ENV_INTERVAL"
    and lines: "envLine t1 h1 = Some l1" "envLine t2 h2 = Some l2" "envLine t3 h3 = Some l3"
    and near1: "\<bar>t1 - lt\<bar> < 2 / 10" "\<bar>h1 - lh\<bar> < 1"
      "\<not> strncmp_differs l1 (cstr (lastEnvStr e)) ENV_LINE_LEN"
    and near2: "\<bar>t2 - lt\<bar> < 2 / 10" "\<bar>h2 - lh\<bar> < 1"
      "\<not> strncmp_differs l2 (cstr (lastEnvStr e)) ENV_LINE_LEN"
    and far3: "\<bar>t3 - lt\<bar> \<ge> 2 / 10 \<or> \<bar>h3 - lh\<bar> \<ge> 1"
  shows "updateEnv L ms1 (Some h1) (Some t1) (e, r) = Some (e\<lparr>lastEnvRead := ms1\<rparr>, r)
       \<and> updateEnv L ms2 (Some h2) (Some t2) (e\<lparr>lastEnvRead := ms1\<rparr>, r)
           = Some (e\<lparr>lastEnvRead := ms2\<rparr>, r)
       \<and> updateEnv L ms3 (Some h3) (Some t3) (e\<lparr>lastEnvRead := ms2\<rparr>, r)
           = Some (e\<lparr>lastEnvRead := ms3, lastEnvStr := storeEnvStr l3, lastT := Some t3,
                     lastH := Some h3\<rparr>, drawEnvLine L l3 r)
       \<and> tft (drawEnvLine L l3 r) = tft r @ [SetTextSize 2, SetTextColor COL_TEXT (ENV_BG L),
            SetCursor 6 26,
            Print (take ENV_LINE_LEN l3
                   @ replicate (ENV_LINE_LEN - min (length l3) ENV_LINE_LEN) CHR '' '')]"
proof -
  have 1: "updateEnv L ms1 (Some h1) (Some t1) (e, r) = Some (e\<lparr>lastEnvRead := ms1\<rparr>, r)"
    using updateEnv_valid [OF gates(1) last lines(1), of L r] near1 by simp
  have 2: "updateEnv L ms2 (Some h2) (Some t2) (e\<lparr>lastEnvRead := ms1\<rparr>, r)
           = Some (e\<lparr>lastEnvRead := ms2\<rparr>, r)"
    using updateEnv_valid [of ms2 "e\<lparr>lastEnvRead := ms1\<rparr>" lt lh t2 h2 l2 L r]
      gates(2) last lines(2) near2 by simp
  have 3: "updateEnv L ms3 (Some h3) (Some t3) (e\<lparr>lastEnvRead := ms2\<rparr>, r)
           = Some (e\<lparr>lastEnvRead := ms3, lastEnvStr := storeEnvStr l3, lastT := Some t3,
                     lastH := Some h3\<rparr>, drawEnvLine L l3 r)"
    using updateEnv_valid [of ms3 "e\<lparr>lastEnvRead := ms2\<rparr>" lt lh t3 h3 l3 L r]
      gates(3) last lines(3) far3 by auto
  show ?thesis using 1 2 3 drawEnvLine_calls [of L l3 r] by simp
qed


theorem C8_witness:
  "lastT envShown = Some 24 \<and> lastH envShown = Some 50
   \<and> lastEnvStr envShown = storeEnvStr ''TEMP 24.0 C   HUM  50 %''
   \<and> \<not> 4000 - lastEnvRead envShown < ENV_INTERVAL
   \<and> \<not> (6000 :: 32 word) - 4000 < ENV_INTERVAL \<and> \<not> (8000 :: 32 word) - 6000 < ENV_INTERVAL
   \<and> envLine 24 50 = Some ''TEMP 24.0 C   HUM  50 %''
   \<and> envLine (769 / 32) (201 / 4) = Some ''TEMP 24.0 C   HUM  50 %''
   \<and> envLine (49 / 2) 50 = Some ''TEMP 24.5 C   HUM  50 %''
   \<and> \<bar>769 / 32 - 24\<bar> < (2 / 10 :: rat) \<and> \<bar>201 / 4 - 50\<bar> < (1 :: rat)
   \<and> \<bar>49 / 2 - 24\<bar> \<ge> (2 / 10 :: rat)
   \<and> updateEnv panel 4000 (Some 50) (Some 24) (envShown, render0)
       = Some (envShown\<lparr>lastEnvRead := 4000\<rparr>, render0)
   \<and> updateEnv panel 6000 (Some (201 / 4)) (Some (769 / 32))
         (envShown\<lparr>lastEnvRead := 4000\<rparr>, render0)
       = Some (envShown\<lparr>lastEnvRead := 6000\<rparr>, render0)
   \<and> updateEnv panel 8000 (Some 50) (Some (49 / 2)) (envShown\<lparr>lastEnvRead := 6000\<rparr>, render0)
       = Some (envShown\<lparr>lastEnvRead := 8000,
                         lastEnvStr := storeEnvStr ''TEMP 24.5 C   HUM  50 %'',
                         lastT := Some (49 / 2), lastH := Some 50\<rparr>,
               drawEnvLine panel ''TEMP 24.5 C   HUM  50 %'' render0)"
proof -
  have last: "lastT envShown = Some 24" "lastH envShown = Some 50"
    by (simp_all add: envShown_def)
  have cached: "lastEnvStr envShown = storeEnvStr ''TEMP 24.0 C   HUM  50 %''"
    by (simp add: envShown_def)
  have gates: "\<not> 4000 - lastEnvRead envShown < ENV_INTERVAL"
    "\<not> (6000 :: 32 word) - 4000 < ENV_INTERVAL" "\<not> (8000 :: 32 word) - 6000 < ENV_INTERVAL"
    by (simp_all add: envShown_def ENV_INTERVAL_def)
  have lines: "envLine 24 50 = Some ''TEMP 24.0 C   HUM  50 %''"
    "envLine (769 / 32) (201 / 4) = Some ''TEMP 24.0 C   HUM  50 %''"
    "envLine (49 / 2) 50 = Some ''TEMP 24.5 C   HUM  50 %''"
    by code_simp+
  have same: "\<not> strncmp_differs ''TEMP 24.0 C   HUM  50 %'' (cstr (lastEnvStr envShown))
      ENV_LINE_LEN"
    by code_simp
  have near: "\<bar>24 - 24\<bar> < (2 / 10 :: rat)" "\<bar>50 - 50\<bar> < (1 :: rat)"
    "\<bar>769 / 32 - 24\<bar> < (2 / 10 :: rat)" "\<bar>201 / 4 - 50\<bar> < (1 :: rat)" by simp_all
  have far: "\<bar>49 / 2 - 24\<bar> \<ge> (2 / 10 :: rat) \<or> \<bar>50 - 50\<bar> \<ge> (1 :: rat)" by simp
  from C8_env_hysteresis [OF last lines(1) cached gates lines near(1,2) same near(3,4) same far,
      of panel render0] last cached gates lines near far
  show ?thesis by simp
qed

end
